theory Spec2Isabelle
  imports Complex_Main "HOL-Library.Sublist" "HOL-Library.Multiset"
    "HOL-Library.Char_ord" "HOL-Library.List_Lexorder"
begin

section \<open>JavaScript strings\<close>

text \<open>
  A JavaScript string is modelled as a \<open>string\<close> whose characters are the code
  units U+0000 to U+00FF. \<open>isSpace\<close> is the class \<open>\s\<close> on that range,
  \<open>toLowerCase\<close> is \<open>String.prototype.toLowerCase\<close> on that range (A to Z and the
  Latin-1 capitals except the multiplication sign get bit 5 set).
\<close>

definition isSpace :: "char \<Rightarrow> bool" where
  "isSpace c = (of_char c \<in> {9, 10, 11, 12, 13, 32, 160 :: nat})"

definition toLowerCaseChar :: "char \<Rightarrow> char" where
  "toLowerCaseChar c =
     (let n = of_char c :: nat
      in if (65 \<le> n \<and> n \<le> 90) \<or> (192 \<le> n \<and> n \<le> 222 \<and> n \<noteq> 215)
         then (case c of Char b0 b1 b2 b3 b4 b5 b6 b7 \<Rightarrow> Char b0 b1 b2 b3 b4 True b6 b7)
         else c)"

definition toLowerCase :: "string \<Rightarrow> string" where
  "toLowerCase s = map toLowerCaseChar s"

text \<open>
  \<open>s.split(/\s+/)\<close>: the pieces between the maximal runs of white space. A string
  that starts or ends with white space gives an empty first or last piece, and the empty
  string gives one empty piece.
\<close>

function splitWs :: "string \<Rightarrow> string list" where
  "splitWs s =
     (let tok = takeWhile (\<lambda>c. \<not> isSpace c) s;
          rest = dropWhile (\<lambda>c. \<not> isSpace c) s
      in if rest = [] then [tok] else tok # splitWs (dropWhile isSpace rest))"
  by pat_completeness auto
termination
proof (relation "measure length")
  show "wf (measure length)" by simp
next
  fix s :: string and tok rest
  assume r: "rest = dropWhile (\<lambda>c. \<not> isSpace c) s" and ne: "rest \<noteq> []"
  have "isSpace (hd rest)"
    using hd_dropWhile[of "\<lambda>c. \<not> isSpace c" s] ne r by simp
  then have "length (dropWhile isSpace rest) < length rest"
    using ne by (cases rest) (auto simp: less_Suc_eq_le length_dropWhile_le)
  moreover have "length rest \<le> length s" unfolding r by (rule length_dropWhile_le)
  ultimately show "(dropWhile isSpace rest, s) \<in> measure length" by simp
qed

declare splitWs.simps [simp del]

text \<open>\<open>s.includes(kw)\<close>: \<open>kw\<close> occurs in \<open>s\<close> at some position.\<close>

fun str_includes :: "string \<Rightarrow> string \<Rightarrow> bool" where
  "str_includes [] kw = (kw = [])"
| "str_includes (c # cs) kw = (prefix kw (c # cs) \<or> str_includes cs kw)"

text \<open>\<open>s.replace(pat, rep)\<close> with a string pattern: the first occurrence only.\<close>

fun str_replace :: "string \<Rightarrow> string \<Rightarrow> string \<Rightarrow> string" where
  "str_replace pat rep [] = (if pat = [] then rep else [])"
| "str_replace pat rep (c # cs) =
     (if prefix pat (c # cs) then rep @ drop (length pat) (c # cs)
      else c # str_replace pat rep cs)"

text \<open>\<open>s.trim()\<close>.\<close>

definition trim :: "string \<Rightarrow> string" where
  "trim s = rev (dropWhile isSpace (rev (dropWhile isSpace s)))"

text \<open>
  The outcome of a call that may throw: \<open>Throws msg\<close> carries \<open>error.message\<close>.
\<close>

datatype 'a outcome = Throws string | Returns 'a


section \<open>Intent detector (intent\_detector.js)\<close>

record intents =
  schedule :: bool
  knowledge :: bool

text \<open>
  One entry of \<open>classifier.predict(message, 2)\<close>: the label and its confidence
  (\<open>pred.value\<close>). Confidences are real numbers, the threshold \<open>0.3\<close> is 3/10.
\<close>

record prediction =
  pred_label :: string
  pred_value :: real

text \<open>
  What the trained model does on one call of \<open>predict\<close>: \<open>isReady\<close> is false, the
  call throws, or it returns its predictions, best first.
\<close>

datatype classifier = NotReady | PredictThrows | Predicts "prediction list"

definition scheduleKeywords :: "string list" where
  "scheduleKeywords =
     [''book'', ''schedule'', ''appointment'', ''reschedule'', ''change'',
      ''move'', ''make it'', ''change to'', ''rebook'', ''slot'']"

definition knowledgeKeywords :: "string list" where
  "knowledgeKeywords =
     [''what'', ''where'', ''how'', ''when'', ''why'', ''tell me'', ''policy'',
      ''parking'', ''hours'', ''insurance'', ''prepare'', ''bring'', ''access'',
      ''grace'', ''late'', ''cancellation'', ''location'', ''office'']"

definition keywordFallback :: "string \<Rightarrow> intents" where
  "keywordFallback message =
     (let lower = toLowerCase message;
          hasSchedule = list_ex (\<lambda>kw. str_includes lower kw) scheduleKeywords;
          hasKnowledge = list_ex (\<lambda>kw. str_includes lower kw) knowledgeKeywords
      in \<lparr>schedule = hasSchedule, knowledge = hasKnowledge \<and> \<not> hasSchedule\<rparr>)"

text \<open>
  \<open>pred.label.replace('__label__', '')\<close>, and the body of \<open>predictions.forEach\<close>:
  one prediction against the threshold.
\<close>

definition label_of :: "prediction \<Rightarrow> string" where
  "label_of p = str_replace ''__label__'' '''' (pred_label p)"

definition check_prediction :: "intents \<Rightarrow> prediction \<Rightarrow> intents" where
  "check_prediction i p =
     (let label = label_of p;
          i1 = (if label = ''schedule'' \<and> pred_value p > 3 / 10
                then i\<lparr>schedule := True\<rparr> else i)
      in if label = ''knowledge'' \<and> pred_value p > 3 / 10
         then i1\<lparr>knowledge := True\<rparr> else i1)"

text \<open>
  \<open>intents[topLabel] = true\<close>. A label other than the two adds a property that no
  caller reads; the two flags stay as they are.
\<close>

definition set_intent :: "string \<Rightarrow> intents \<Rightarrow> intents" where
  "set_intent topLabel i =
     (if topLabel = ''schedule'' then i\<lparr>schedule := True\<rparr>
      else if topLabel = ''knowledge'' then i\<lparr>knowledge := True\<rparr>
      else i)"

definition predict :: "classifier \<Rightarrow> string \<Rightarrow> intents" where
  "predict cls message =
     (case cls of
        NotReady \<Rightarrow> keywordFallback message
      | PredictThrows \<Rightarrow> keywordFallback message
      | Predicts predictions \<Rightarrow>
          (let i = foldl check_prediction \<lparr>schedule = False, knowledge = False\<rparr> predictions
           in if predictions \<noteq> [] \<and> \<not> schedule i \<and> \<not> knowledge i
              then set_intent (label_of (hd predictions)) i
              else i))"


section \<open>Hybrid retrieval (qdrantDao.js)\<close>

text \<open>
  A retrieved chunk: \<open>{id, score, payload: {text, doc_id, chunk_index}}\<close>. Scores are
  real numbers: the arithmetic of the ranking code is read exactly.
\<close>

record payload =
  chunk_text :: string
  doc_id :: string
  chunk_index :: nat

record hit =
  hit_id :: string
  score :: real
  payload :: payload

subsection \<open>Reciprocal rank fusion: mergeResults\<close>

text \<open>
  \<open>scoreMap\<close> is a JavaScript \<open>Map\<close>: it iterates in insertion order, and \<open>set\<close>
  on a key it already holds replaces the value where the key stands.
\<close>

type_synonym score_map = "(string \<times> (real \<times> hit)) list"

fun map_set :: "string \<Rightarrow> real \<times> hit \<Rightarrow> score_map \<Rightarrow> score_map" where
  "map_set k v [] = [(k, v)]"
| "map_set k v ((k', v') # m) =
     (if k = k' then (k, v) # m else (k', v') # map_set k v m)"

definition rrfScore :: "nat \<Rightarrow> real" where
  "rrfScore rank = 1 / (60 + real rank + 1)"

text \<open>\<open>bm25Results.forEach((result, rank) => ...)\<close>, from index \<open>rank\<close> on.\<close>

fun add_bm25 :: "score_map \<Rightarrow> hit list \<Rightarrow> nat \<Rightarrow> score_map" where
  "add_bm25 m [] rank = m"
| "add_bm25 m (r # rs) rank =
     add_bm25 (map_set (hit_id r) (rrfScore rank, r) m) rs (Suc rank)"

text \<open>\<open>vectorResults.forEach((result, rank) => ...)\<close>, from index \<open>rank\<close> on.\<close>

fun add_vector :: "score_map \<Rightarrow> hit list \<Rightarrow> nat \<Rightarrow> score_map" where
  "add_vector m [] rank = m"
| "add_vector m (r # rs) rank =
     add_vector
       (case map_of m (hit_id r) of
          Some (s, r0) \<Rightarrow> map_set (hit_id r) (s + rrfScore rank, r0) m
        | None \<Rightarrow> map_set (hit_id r) (rrfScore rank, r) m)
       rs (Suc rank)"

text \<open>
  \<open>Array.prototype.sort\<close> is stable; with the comparator \<open>b.score - a.score\<close> it is
  the stable sort by descending score, here \<open>sort_key\<close> on the negated score.
\<close>

definition mergeResults :: "hit list \<Rightarrow> hit list \<Rightarrow> hit list" where
  "mergeResults bm25Results vectorResults =
     map (\<lambda>(k, s, r). r\<lparr>score := s\<rparr>)
       (sort_key (\<lambda>(k, s, r). - s)
          (add_vector (add_bm25 [] bm25Results 0) vectorResults 0))"

subsection \<open>Diversity selection: textSimilarity and applyMMR\<close>

text \<open>
  The three \<open>Set\<close>s of \<open>textSimilarity\<close> are lists without repetition; only their
  sizes are read.
\<close>

definition textSimilarity :: "string \<Rightarrow> string \<Rightarrow> real" where
  "textSimilarity text1 text2 =
     (let words1 = remdups (splitWs (toLowerCase text1));
          words2 = remdups (splitWs (toLowerCase text2));
          intersection = remdups (filter (\<lambda>x. x \<in> set words2) words1);
          union = remdups (words1 @ words2)
      in real (length intersection) / real (length union))"

text \<open>The inner loop over \<open>selected\<close>: \<open>maxSimilarity\<close> starts at 0.\<close>

definition maxSimilarity :: "hit \<Rightarrow> hit list \<Rightarrow> real" where
  "maxSimilarity candidate selected =
     foldl (\<lambda>m selectedItem.
              max m (textSimilarity (chunk_text (payload candidate))
                       (chunk_text (payload selectedItem))))
       0 selected"

definition mmrScore :: "real \<Rightarrow> hit list \<Rightarrow> hit \<Rightarrow> real" where
  "mmrScore lam selected candidate =
     lam * score candidate - (1 - lam) * maxSimilarity candidate selected"

text \<open>
  The loop \<open>for (let i = 0; i < remaining.length; i++)\<close> from index \<open>i\<close> on, with the
  current \<open>bestIndex\<close> and \<open>bestScore\<close>; \<open>None\<close> is \<open>-Infinity\<close>.
\<close>

fun scan_best :: "real \<Rightarrow> hit list \<Rightarrow> hit list \<Rightarrow> nat \<Rightarrow> nat \<Rightarrow> real option \<Rightarrow> nat" where
  "scan_best lam selected [] i bestIndex bestScore = bestIndex"
| "scan_best lam selected (candidate # cs) i bestIndex bestScore =
     (let m = mmrScore lam selected candidate
      in if (case bestScore of None \<Rightarrow> True | Some b \<Rightarrow> m > b)
         then scan_best lam selected cs (Suc i) i (Some m)
         else scan_best lam selected cs (Suc i) bestIndex bestScore)"

text \<open>
  The \<open>while\<close> loop. \<open>remaining.splice(bestIndex, 1)[0]\<close> takes the element at
  \<open>bestIndex\<close> out of \<open>remaining\<close>; \<open>scan_best\<close> returns an index inside the list
  (lemma \<open>scan_best_less\<close>).
\<close>

function mmr_loop :: "real \<Rightarrow> nat \<Rightarrow> hit list \<Rightarrow> hit list \<Rightarrow> hit list" where
  "mmr_loop lam finalLimit selected remaining =
     (if length selected < finalLimit \<and> remaining \<noteq> []
      then (let bestIndex = scan_best lam selected remaining 0 0 None
            in mmr_loop lam finalLimit (selected @ [remaining ! bestIndex])
                 (take bestIndex remaining @ drop (Suc bestIndex) remaining))
      else selected)"
  by pat_completeness auto
termination
  by (relation "measure (\<lambda>(lam, finalLimit, selected, remaining). finalLimit - length selected)")
    auto

declare mmr_loop.simps [simp del]

definition applyMMR :: "hit list \<Rightarrow> nat \<Rightarrow> real \<Rightarrow> hit list" where
  "applyMMR results finalLimit lam =
     (if length results \<le> finalLimit then results
      else mmr_loop lam finalLimit [hd results] (tl results))"


subsection \<open>The services behind one knowledge query\<close>

record citation =
  cit_id :: string
  cit_chunk :: nat
  cit_score :: real
  cit_ref :: nat

record answer =
  reply :: string
  citations :: "citation list"

text \<open>An entry of \<open>documentMap\<close>: \<open>{id, text, doc_id, chunk_index}\<close>.\<close>

record index_doc =
  d_id :: string
  d_text :: string
  d_doc_id :: string
  d_chunk_index :: nat

text \<open>
  The Redis cache, the embedding provider, the vector database and the \<open>natural\<close>
  TF-IDF index are services outside the repository. \<open>kenv\<close> is what they answer during
  one query: each call either throws or returns. A Redis read returns the parsed value
  stored under the key, or \<open>None\<close> for \<open>null\<close>. \<open>base64\<close> is
  \<open>Buffer.from(s).toString('base64')\<close>. \<open>tfidfs\<close> gives the measure of every indexed
  document, by position.
\<close>

record kenv =
  base64 :: "string \<Rightarrow> string"
  knowledge_get :: "string \<Rightarrow> answer option outcome"
  knowledge_setex :: "string \<Rightarrow> answer \<Rightarrow> unit outcome"
  query_get :: "string \<Rightarrow> hit list option outcome"
  query_setex :: "string \<Rightarrow> hit list \<Rightarrow> unit outcome"
  emb_get :: "string \<Rightarrow> real list option outcome"
  emb_setex :: "string \<Rightarrow> real list \<Rightarrow> unit outcome"
  openai_embed :: "string \<Rightarrow> real list outcome"
  qdrant_search :: "real list \<Rightarrow> nat \<Rightarrow> hit list outcome"
  tfidf_documents :: nat
  tfidfs :: "string \<Rightarrow> real list outcome"
  documentMap :: "nat \<Rightarrow> index_doc option"

subsection \<open>Embeddings and the two searches\<close>

definition getCachedEmbedding :: "kenv \<Rightarrow> string \<Rightarrow> real list option" where
  "getCachedEmbedding env txt =
     (case emb_get env (''emb:'' @ take 100 (base64 env txt)) of
        Throws e \<Rightarrow> None
      | Returns cached \<Rightarrow> cached)"

text \<open>The \<open>catch\<close> of \<open>setCachedEmbedding\<close> swallows a failed write.\<close>

definition setCachedEmbedding :: "kenv \<Rightarrow> string \<Rightarrow> real list \<Rightarrow> unit outcome" where
  "setCachedEmbedding env txt embedding =
     (case emb_setex env (''emb:'' @ take 100 (base64 env txt)) embedding of
        Throws e \<Rightarrow> Returns ()
      | Returns u \<Rightarrow> Returns ())"

definition generateEmbedding :: "kenv \<Rightarrow> string \<Rightarrow> real list outcome" where
  "generateEmbedding env txt =
     (case getCachedEmbedding env txt of
        Some cached \<Rightarrow> Returns cached
      | None \<Rightarrow>
          (case openai_embed env txt of
             Throws e \<Rightarrow> Throws e
           | Returns embedding \<Rightarrow>
               (case setCachedEmbedding env txt embedding of
                  Throws e \<Rightarrow> Returns embedding
                | Returns u \<Rightarrow> Returns embedding)))"

definition hit_of_doc :: "index_doc \<Rightarrow> real \<Rightarrow> hit" where
  "hit_of_doc doc m =
     \<lparr>hit_id = d_id doc, score = m,
      payload = \<lparr>chunk_text = d_text doc, doc_id = d_doc_id doc,
                 chunk_index = d_chunk_index doc\<rparr>\<rparr>"

definition bm25Search :: "kenv \<Rightarrow> string \<Rightarrow> nat \<Rightarrow> hit list" where
  "bm25Search env query limit =
     (if tfidf_documents env = 0 then []
      else case tfidfs env query of
             Throws e \<Rightarrow> []
           | Returns ms \<Rightarrow>
               take limit
                 (sort_key (\<lambda>r. - score r)
                    (concat
                       (map (\<lambda>(i, m).
                               if m > 0
                               then (case documentMap env i of
                                       Some doc \<Rightarrow> [hit_of_doc doc m]
                                     | None \<Rightarrow> [])
                               else [])
                          (enumerate 0 ms)))))"

definition vectorSearch :: "kenv \<Rightarrow> string \<Rightarrow> nat \<Rightarrow> hit list" where
  "vectorSearch env query limit =
     (case generateEmbedding env query of
        Throws e \<Rightarrow> []
      | Returns queryEmbedding \<Rightarrow>
          (case qdrant_search env queryEmbedding limit of
             Throws e \<Rightarrow> []
           | Returns searchResults \<Rightarrow> searchResults))"

subsection \<open>searchDocuments\<close>

definition getCachedResults :: "kenv \<Rightarrow> string \<Rightarrow> hit list option" where
  "getCachedResults env query =
     (case query_get env (''query:'' @ base64 env query) of
        Throws e \<Rightarrow> None
      | Returns cached \<Rightarrow> cached)"

text \<open>The \<open>catch\<close> of \<open>setCachedResults\<close> swallows a failed write.\<close>

definition setCachedResults :: "kenv \<Rightarrow> string \<Rightarrow> hit list \<Rightarrow> unit outcome" where
  "setCachedResults env query results =
     (case query_setex env (''query:'' @ base64 env query) results of
        Throws e \<Rightarrow> Returns ()
      | Returns u \<Rightarrow> Returns ())"

text \<open>
  Every call inside the \<open>try\<close> of \<open>searchDocuments\<close> returns in this model, so the
  function returns a list; a cached array is truthy also when it is empty.
\<close>

definition searchDocuments :: "kenv \<Rightarrow> string \<Rightarrow> nat \<Rightarrow> hit list" where
  "searchDocuments env query limit =
     (case getCachedResults env query of
        Some cached \<Rightarrow> cached
      | None \<Rightarrow>
          (let bm25Results = bm25Search env query 8;
               vectorResults = vectorSearch env query 8;
               merged = mergeResults bm25Results vectorResults;
               top8 = take 8 merged;
               top3 = applyMMR top8 limit (1 / 2)
           in case setCachedResults env query top3 of
                Throws e \<Rightarrow> top3
              | Returns u \<Rightarrow> top3))"


section \<open>Answer extraction (knowledge\_api.js)\<close>

subsection \<open>Sentence scores\<close>

text \<open>
  \<open>calculateBM25Score\<close>: the loop over the query terms is a fold over the running
  \<open>score\<close>; \<open>Math.log(1)\<close> is \<open>ln 1\<close>.
\<close>

definition calculateBM25Score :: "string \<Rightarrow> string \<Rightarrow> real" where
  "calculateBM25Score query sentence =
     (let queryTerms = splitWs (toLowerCase query);
          sentenceTerms = splitWs (toLowerCase sentence);
          k1 = 12 / 10;
          b = 75 / 100;
          avgLength = 20
      in foldl (\<lambda>acc term.
                  let termFreq = length (filter (\<lambda>t. t = term) sentenceTerms)
                  in if termFreq > 0
                     then (let idf = ln 1;
                               tf = (real termFreq * (k1 + 1)) /
                                    (real termFreq +
                                     k1 * (1 - b + b * (real (length sentenceTerms) / avgLength)))
                           in acc + idf * tf)
                     else acc)
           0 queryTerms)"

text \<open>
  A number of the source is a real number or \<open>NaN\<close>; \<open>NaN\<close> is the value \<open>None\<close>.

  \<open>cosineSimilarity\<close>: the three running sums of the loop are the sums over the
  positions. When one of the vectors has norm 0 (the empty vector among them) the
  product of the roots is 0 and so is \<open>dotProduct\<close>: the source computes \<open>0 / 0\<close>,
  which is \<open>NaN\<close>.
\<close>

definition cosineSimilarity :: "real list \<Rightarrow> real list \<Rightarrow> real option" where
  "cosineSimilarity vecA vecB =
     (if length vecA \<noteq> length vecB then Some 0
      else (let dotProduct = (\<Sum>(a, b)\<leftarrow>zip vecA vecB. a * b);
                normA = (\<Sum>a\<leftarrow>vecA. a * a);
                normB = (\<Sum>b\<leftarrow>vecB. b * b);
                denominator = sqrt normA * sqrt normB
            in if denominator = 0 then None else Some (dotProduct / denominator)))"

text \<open>
  \<open>(0.7 * semanticScore) + (0.3 * bm25Score)\<close>; a sum with \<open>NaN\<close> is \<open>NaN\<close>.
\<close>

definition combinedScore :: "real list \<Rightarrow> string \<Rightarrow> string \<Rightarrow> real list \<Rightarrow> real option" where
  "combinedScore queryEmbedding query sentence sentenceEmbedding =
     (case cosineSimilarity queryEmbedding sentenceEmbedding of
        None \<Rightarrow> None
      | Some semanticScore \<Rightarrow>
          Some (7 / 10 * semanticScore + 3 / 10 * calculateBM25Score query sentence))"

subsection \<open>splitIntoSentences\<close>

text \<open>
  \<open>text.replace(/===\s*[^=]+\s*===/g, '')\<close>. A match begins with three \<open>=\<close>; the
  class \<open>[^=]+\<close> cannot cross a \<open>=\<close>, and the two \<open>\s*\<close> take their characters from
  the same run, so there is a match exactly when the run of characters other than
  \<open>=\<close> that follows is not empty and is itself followed by three \<open>=\<close>.
  \<open>header_length\<close> is the length of the match that begins the string.
  \<open>strip_headers n s\<close> copies \<open>s\<close>, after the \<open>n\<close> characters that remain of the
  match being removed; the search resumes after each match.
\<close>

definition header_length :: "string \<Rightarrow> nat option" where
  "header_length s =
     (if prefix ''==='' s
      then (let r = drop 3 s;
                x = takeWhile (\<lambda>c. c \<noteq> CHR ''='') r;
                r2 = dropWhile (\<lambda>c. c \<noteq> CHR ''='') r
            in if x \<noteq> [] \<and> prefix ''==='' r2 then Some (3 + length x + 3) else None)
      else None)"

fun strip_headers :: "nat \<Rightarrow> string \<Rightarrow> string" where
  "strip_headers n [] = []"
| "strip_headers (Suc n) (c # cs) = strip_headers n cs"
| "strip_headers 0 (c # cs) =
     (case header_length (c # cs) of
        Some k \<Rightarrow> strip_headers (k - 1) cs
      | None \<Rightarrow> c # strip_headers 0 cs)"

text \<open>\<open>s.split('\n')\<close>, with the piece read so far.\<close>

fun split_newlines :: "string \<Rightarrow> string \<Rightarrow> string list" where
  "split_newlines piece [] = [piece]"
| "split_newlines piece (c # cs) =
     (if c = CHR 0x0A then piece # split_newlines [] cs
      else split_newlines (piece @ [c]) cs)"

definition isTerminal :: "char \<Rightarrow> bool" where
  "isTerminal c = (c = CHR ''.'' \<or> c = CHR ''!'' \<or> c = CHR ''?'')"

definition isCapital :: "char \<Rightarrow> bool" where
  "isCapital c = (65 \<le> (of_char c :: nat) \<and> (of_char c :: nat) \<le> 90)"

text \<open>
  \<open>line.split(/(?<=[.!?])\s+(?=[A-Z])/)\<close>: a separator is a whole run of white
  space that stands after one of \<open>.\<close>, \<open>!\<close>, \<open>?\<close> and before a capital letter (a shorter
  run is followed by white space). \<open>split_endings n prev piece s\<close> has \<open>n\<close> characters
  of the current separator left to skip, \<open>prev\<close> is the character before \<open>s\<close>.
\<close>

fun split_endings :: "nat \<Rightarrow> char option \<Rightarrow> string \<Rightarrow> string \<Rightarrow> string list" where
  "split_endings n prev piece [] = [piece]"
| "split_endings (Suc n) prev piece (c # cs) = split_endings n (Some c) piece cs"
| "split_endings 0 prev piece (c # cs) =
     (let w = takeWhile isSpace (c # cs);
          r = dropWhile isSpace (c # cs)
      in if (case prev of None \<Rightarrow> False | Some p \<Rightarrow> isTerminal p) \<and> w \<noteq> [] \<and>
            (case r of [] \<Rightarrow> False | d # ds \<Rightarrow> isCapital d)
         then piece # split_endings (length w - 1) (Some c) [] cs
         else split_endings 0 (Some c) (piece @ [c]) cs)"

text \<open>
  \<open>sent.split(/\.\s+/)\<close>: a separator is a period and the whole run of white space
  after it, which is not empty.
\<close>

fun split_periods :: "nat \<Rightarrow> string \<Rightarrow> string \<Rightarrow> string list" where
  "split_periods n piece [] = [piece]"
| "split_periods (Suc n) piece (c # cs) = split_periods n piece cs"
| "split_periods 0 piece (c # cs) =
     (let w = takeWhile isSpace cs
      in if c = CHR ''.'' \<and> w \<noteq> []
         then piece # split_periods (length w) [] cs
         else split_periods 0 (piece @ [c]) cs)"

text \<open>\<open>sent.match(/[.!?]$/)\<close>, which is also the test of the three \<open>endsWith\<close>.\<close>

definition ends_sentence :: "string \<Rightarrow> bool" where
  "ends_sentence s = (s \<noteq> [] \<and> isTerminal (last s))"

text \<open>\<open>[...new Set(sentences)]\<close>: the first occurrence of each sentence, in order.\<close>

definition unique :: "string list \<Rightarrow> string list" where
  "unique sentences = rev (remdups (rev sentences))"

definition splitIntoSentences :: "string \<Rightarrow> string list" where
  "splitIntoSentences txt =
     (let cleanedText = strip_headers 0 txt;
          lines = filter (\<lambda>l. length l > 0) (map trim (split_newlines [] cleanedText));
          sentences =
            concat (map (\<lambda>line.
              let lineSentences =
                    filter (\<lambda>s. length s > 10) (map trim (split_endings 0 None [] line))
              in concat (map (\<lambda>sent.
                   if length sent > 200 \<or> \<not> ends_sentence sent
                   then map (\<lambda>s. if ends_sentence s then s else s @ ''.'')
                          (filter (\<lambda>s. length s > 10) (map trim (split_periods 0 [] sent)))
                   else [sent]) lineSentences)) lines)
      in unique sentences)"

text \<open>
  The scoring loop of \<open>findBestSentence\<close> over the valid sentences and their
  embeddings, with the current \<open>bestSentence\<close> and \<open>bestScore\<close>. The comparison
  \<open>combinedScore > bestScore\<close> is false when the score is \<open>NaN\<close>.
\<close>

fun score_sentences ::
  "real list \<Rightarrow> string \<Rightarrow> (string \<times> real list) list \<Rightarrow> string \<times> real \<Rightarrow> string \<times> real"
where
  "score_sentences queryEmbedding query [] best = best"
| "score_sentences queryEmbedding query ((sentence, sentenceEmbedding) # rest)
     (bestSentence, bestScore) =
     (case combinedScore queryEmbedding query sentence sentenceEmbedding of
        None \<Rightarrow> score_sentences queryEmbedding query rest (bestSentence, bestScore)
      | Some c \<Rightarrow>
          if c > bestScore
          then score_sentences queryEmbedding query rest (sentence, c)
          else score_sentences queryEmbedding query rest (bestSentence, bestScore))"

text \<open>
  \<open>findBestSentence\<close>: \<open>Promise.all\<close> rejects when one embedding fails, and the
  \<open>catch\<close> returns the chunk text.
\<close>

definition findBestSentence :: "kenv \<Rightarrow> string \<Rightarrow> string \<Rightarrow> string" where
  "findBestSentence env query txt =
     (let sentences = splitIntoSentences txt
      in if sentences = [] then txt
         else if length sentences = 1 then hd sentences
         else (let validSentences = filter (\<lambda>s. length s \<le> 500) sentences
               in if validSentences = [] then hd sentences
                  else (case generateEmbedding env query of
                          Throws e \<Rightarrow> txt
                        | Returns queryEmbedding \<Rightarrow>
                            (case those (map (\<lambda>s. case generateEmbedding env s of
                                                     Throws e \<Rightarrow> None
                                                   | Returns v \<Rightarrow> Some v)
                                           validSentences) of
                               None \<Rightarrow> txt
                             | Some sentenceEmbeddings \<Rightarrow>
                                 trim (fst (score_sentences queryEmbedding query
                                              (zip validSentences sentenceEmbeddings)
                                              (hd validSentences, - 1)))))))"

subsection \<open>getKnowledgeAnswer\<close>

definition no_information :: answer where
  "no_information =
     \<lparr>reply = ''I don't have information about that in my knowledge base.'',
      citations = []\<rparr>"

definition retrieval_error :: answer where
  "retrieval_error =
     \<lparr>reply = ''Sorry, I encountered an error retrieving that information.'',
      citations = []\<rparr>"

text \<open>
  \<open>Math.round(x * 100) / 100\<close>; \<open>Math.round\<close> rounds a half upwards. The model
  computes with the real numbers. The source multiplies and divides in binary floating
  point, and its result is another one for a score whose product with 100 is rounded
  across a half: \<open>1.005 * 100\<close> is \<open>100.49999999999999\<close> there and gives 1, where
  \<open>round2\<close> gives 1.01. A score of the retrieval is \<open>1 / (61 + r)\<close> or a sum of two
  of them, with ranks below 8, and its product with 100 is at least 0.007 away from
  every half.
\<close>

definition round2 :: "real \<Rightarrow> real" where
  "round2 x = real_of_int \<lfloor>x * 100 + 1 / 2\<rfloor> / 100"

definition build_citations :: "hit list \<Rightarrow> citation list" where
  "build_citations docs =
     map (\<lambda>(idx, doc).
            \<lparr>cit_id = doc_id (payload doc), cit_chunk = chunk_index (payload doc),
             cit_score = round2 (score doc), cit_ref = idx + 1\<rparr>)
       (enumerate 0 docs)"

text \<open>
  Every \<open>await\<close> of \<open>getKnowledgeAnswer\<close> stands inside its \<open>try\<close>: a call that
  throws ends in the \<open>catch\<close>, which returns the error reply.
\<close>

definition getKnowledgeAnswer :: "kenv \<Rightarrow> string \<Rightarrow> answer" where
  "getKnowledgeAnswer env message =
     (let cacheKey = ''knowledge:'' @ take 100 (base64 env message)
      in case knowledge_get env cacheKey of
           Throws e \<Rightarrow> retrieval_error
         | Returns (Some cached) \<Rightarrow> cached
         | Returns None \<Rightarrow>
             (let docs = searchDocuments env message 3
              in if docs = [] then no_information
                 else (let cits = build_citations docs;
                           topDoc = hd docs;
                           bestSentence = findBestSentence env message (chunk_text (payload topDoc));
                           result = \<lparr>reply = bestSentence, citations = cits\<rparr>
                       in case knowledge_setex env cacheKey result of
                            Throws e \<Rightarrow> retrieval_error
                          | Returns u \<Rightarrow> result)))"


section \<open>Appointments and session memory\<close>

text \<open>
  The parts of the platform the scheduling code calls: \<open>new Date(s)\<close> (\<open>None\<close> is
  an invalid date, else the milliseconds since the epoch), \<open>toISOString\<close>,
  \<open>toLocaleString\<close> with the en-US options of the orchestrator, the date parser
  \<open>chrono.parseDate\<close> and the person tagger \<open>nlp(message).people().out('array')\<close>.
\<close>

record platform =
  date_parse :: "string \<Rightarrow> int option"
  toISOString :: "int \<Rightarrow> string"
  toLocaleString :: "int \<Rightarrow> string"
  chrono_parseDate :: "string \<Rightarrow> int option"
  nlp_people :: "string \<Rightarrow> string list"

record appointment =
  appt_id :: string
  patient :: string
  normalized_slot_iso :: string
  location :: string
  status :: string
  created_at :: string
  updated_at :: "string option"

text \<open>\<open>last_appt\<close> of a session: \<open>{patient, slot, location, appt_id, timestamp}\<close>.\<close>

record appt_context =
  la_patient :: string
  la_slot :: string
  la_location :: string
  la_appt_id :: string
  la_timestamp :: string

record session =
  last_appt :: "appt_context option"

text \<open>
  The state the scheduling code works on. Redis holds JSON text under the keys
  \<open>appt:<id>\<close> and \<open>memory:<session>\<close> and the set \<open>appts:all\<close>; the prefixes keep
  the key spaces apart, and \<open>JSON.parse\<close> gives back the object \<open>JSON.stringify\<close> was
  given, so the model holds one map of objects for each prefix. Entries stay for their
  time to live (seven days and thirty minutes); the model covers what happens within it.
  \<open>faults\<close> scripts the connection: every Redis command takes the head of the list,
  and \<open>Some msg\<close> makes the command throw an error with that message; when the list is
  empty every command succeeds. \<open>now\<close> is the clock in milliseconds, read by
  \<open>Date.now()\<close> and \<open>new Date()\<close>; it stands still during one call.
\<close>

record world =
  appts :: "string \<Rightarrow> appointment option"
  appts_all :: "string set"
  sessions :: "string \<Rightarrow> session option"
  lastApptNumber :: nat
  now :: nat
  faults :: "string option list"

definition redis_call :: "world \<Rightarrow> string option \<times> world" where
  "redis_call w = (case faults w of [] \<Rightarrow> (None, w) | f # fs \<Rightarrow> (f, w\<lparr>faults := fs\<rparr>))"

text \<open>\<open>n.toString()\<close> for a natural number.\<close>

fun show_nat :: "nat \<Rightarrow> string" where
  "show_nat n =
     (if n < 10 then [''0123456789'' ! n]
      else show_nat (n div 10) @ [''0123456789'' ! (n mod 10)])"

declare show_nat.simps [simp del]

subsection \<open>schedule\_api.js\<close>

datatype tool_result = Ok appointment | Failed string

text \<open>
  \<open>generateApptId\<close> calls itself again while the identifier it made exists. Not
  returning is the value \<open>None\<close>.
\<close>

partial_function (option) generateApptId :: "world \<Rightarrow> (string outcome \<times> world) option" where
  "generateApptId w =
     (let ts = show_nat (now w);
          timestamp = drop (length ts - 6) ts;
          w1 = w\<lparr>lastApptNumber := lastApptNumber w + 1\<rparr>;
          apptId = ''A-'' @ timestamp @ ''-'' @ show_nat (lastApptNumber w1);
          fault = fst (redis_call w1);
          w2 = snd (redis_call w1)
      in if fault \<noteq> None then Some (Throws (the fault), w2)
         else if appts w2 apptId \<noteq> None then generateApptId w2
         else Some (Returns apptId, w2))"

text \<open>
  \<open>!name\<close>, \<open>!slot\<close>, \<open>!location\<close>: the callers pass strings, and a string is falsy
  when it is empty. Each \<open>return {ok: false, error}\<close> is \<open>Failed\<close>, the \<open>catch\<close>
  included; \<open>{ok: true, ...appointment}\<close> is \<open>Ok\<close>.
\<close>

definition scheduleAppointment ::
  "platform \<Rightarrow> string \<Rightarrow> string \<Rightarrow> string \<Rightarrow> world \<Rightarrow> (tool_result \<times> world) option"
where
  "scheduleAppointment p name slot loc w =
     (if name = [] \<or> slot = [] \<or> loc = []
      then Some (Failed ''Missing required fields: name, slot, location'', w)
      else (case generateApptId w of
              None \<Rightarrow> None
            | Some (Throws e, w1) \<Rightarrow> Some (Failed e, w1)
            | Some (Returns apptId, w1) \<Rightarrow>
                (case date_parse p slot of
                   None \<Rightarrow> Some (Failed ''Invalid date/time format'', w1)
                 | Some slotDate \<Rightarrow>
                     (let appointment =
                            \<lparr>appt_id = apptId, patient = name,
                             normalized_slot_iso = toISOString p slotDate,
                             location = loc, status = ''scheduled'',
                             created_at = toISOString p (int (now w1)),
                             updated_at = None\<rparr>
                      in case redis_call w1 of
                           (Some e, w2) \<Rightarrow> Some (Failed e, w2)
                         | (None, w2) \<Rightarrow>
                             (let w3 = w2\<lparr>appts := (appts w2)(apptId \<mapsto> appointment)\<rparr>
                              in case redis_call w3 of
                                   (Some e, w4) \<Rightarrow> Some (Failed e, w4)
                                 | (None, w4) \<Rightarrow>
                                     Some (Ok appointment,
                                           w4\<lparr>appts_all := insert apptId (appts_all w4)\<rparr>))))))"

definition rescheduleAppointment ::
  "platform \<Rightarrow> string \<Rightarrow> string \<Rightarrow> world \<Rightarrow> tool_result \<times> world"
where
  "rescheduleAppointment p apptId newSlot w =
     (case redis_call w of
        (Some e, w1) \<Rightarrow> (Failed e, w1)
      | (None, w1) \<Rightarrow>
          (case appts w1 apptId of
             None \<Rightarrow> (Failed (''Appointment '' @ apptId @ '' not found''), w1)
           | Some appointment \<Rightarrow>
               (case date_parse p newSlot of
                  None \<Rightarrow> (Failed ''Invalid date/time format'', w1)
                | Some slotDate \<Rightarrow>
                    (let appointment' =
                           appointment\<lparr>normalized_slot_iso := toISOString p slotDate,
                                       updated_at := Some (toISOString p (int (now w1)))\<rparr>
                     in case redis_call w1 of
                          (Some e, w2) \<Rightarrow> (Failed e, w2)
                        | (None, w2) \<Rightarrow>
                            (Ok appointment',
                             w2\<lparr>appts := (appts w2)(apptId \<mapsto> appointment')\<rparr>)))))"

definition getAppointment :: "string \<Rightarrow> world \<Rightarrow> appointment option \<times> world" where
  "getAppointment apptId w =
     (case redis_call w of
        (Some e, w1) \<Rightarrow> (None, w1)
      | (None, w1) \<Rightarrow> (appts w1 apptId, w1))"

subsection \<open>memory.js\<close>

text \<open>The two functions have no \<open>try\<close>: a Redis command that throws makes them throw.\<close>

definition getLastAppt :: "string \<Rightarrow> world \<Rightarrow> appt_context option outcome \<times> world" where
  "getLastAppt sessionId w =
     (case redis_call w of
        (Some e, w1) \<Rightarrow> (Throws e, w1)
      | (None, w1) \<Rightarrow>
          (case sessions w1 sessionId of
             None \<Rightarrow> (Returns None, w1)
           | Some session \<Rightarrow> (Returns (last_appt session), w1)))"

definition setLastAppt ::
  "platform \<Rightarrow> string \<Rightarrow> string \<Rightarrow> string \<Rightarrow> string \<Rightarrow> string \<Rightarrow> world \<Rightarrow> unit outcome \<times> world"
where
  "setLastAppt p sessionId pat slot loc apptId w =
     (case redis_call w of
        (Some e, w1) \<Rightarrow> (Throws e, w1)
      | (None, w1) \<Rightarrow>
          (let session = (case sessions w1 sessionId of
                            None \<Rightarrow> \<lparr>last_appt = None\<rparr>
                          | Some existing \<Rightarrow> existing);
               session' = session\<lparr>last_appt :=
                            Some \<lparr>la_patient = pat, la_slot = slot, la_location = loc,
                                  la_appt_id = apptId,
                                  la_timestamp = toISOString p (int (now w1))\<rparr>\<rparr>
           in case redis_call w1 of
                (Some e, w2) \<Rightarrow> (Throws e, w2)
              | (None, w2) \<Rightarrow>
                  (Returns (), w2\<lparr>sessions := (sessions w2)(sessionId \<mapsto> session')\<rparr>)))"


section \<open>Orchestrator (orchestrator.js)\<close>

subsection \<open>Entity extraction\<close>

text \<open>
  The regular expressions of the orchestrator carry the flag \<open>i\<close>. Under it a letter
  of the pattern matches both cases of that letter, and the classes \<open>[A-Z]\<close> and
  \<open>[a-z]\<close> both match every ASCII letter. \<open>\b\<close> holds between a word character
  (\<open>[A-Za-z0-9_]\<close>) and a character that is none, the ends of the string included.
\<close>

definition isLetter :: "char \<Rightarrow> bool" where
  "isLetter c = (let n = of_char c :: nat in (65 \<le> n \<and> n \<le> 90) \<or> (97 \<le> n \<and> n \<le> 122))"

definition isWordChar :: "char \<Rightarrow> bool" where
  "isWordChar c =
     (let n = of_char c :: nat in isLetter c \<or> (48 \<le> n \<and> n \<le> 57) \<or> n = 95)"

definition asciiLower :: "char \<Rightarrow> char" where
  "asciiLower c =
     (let n = of_char c :: nat
      in if 65 \<le> n \<and> n \<le> 90
         then (case c of Char b0 b1 b2 b3 b4 b5 b6 b7 \<Rightarrow> Char b0 b1 b2 b3 b4 True b6 b7)
         else c)"

text \<open>A lower-case literal of a pattern matches at the start of \<open>s\<close>, ignoring case.\<close>

definition ci_prefix :: "string \<Rightarrow> string \<Rightarrow> bool" where
  "ci_prefix kw s = (length kw \<le> length s \<and> map asciiLower (take (length kw) s) = kw)"

text \<open>\<open>\b\<close> at the position after \<open>prev\<close> (\<open>None\<close> at the start) and before \<open>s\<close>.\<close>

definition word_boundary :: "char option \<Rightarrow> string \<Rightarrow> bool" where
  "word_boundary prev s =
     ((case prev of None \<Rightarrow> False | Some c \<Rightarrow> isWordChar c) \<noteq>
      (case s of [] \<Rightarrow> False | c # cs \<Rightarrow> isWordChar c))"

fun first_some :: "('a \<Rightarrow> 'b option) \<Rightarrow> 'a list \<Rightarrow> 'b option" where
  "first_some f [] = None"
| "first_some f (x # xs) = (case f x of Some y \<Rightarrow> Some y | None \<Rightarrow> first_some f xs)"

text \<open>
  \<open>\b(?:kw1|kw2)\s+([A-Z][a-z]+)\<close> at one position: the alternatives in order, then
  the white space, then a run of at least two letters, which is group 1. The
  quantifiers are greedy, and no shorter choice can match: after less white space comes
  white space, which is no letter.
\<close>

definition match_keyword_name :: "string list \<Rightarrow> char option \<Rightarrow> string \<Rightarrow> string option" where
  "match_keyword_name kws prev s =
     (if word_boundary prev s
      then first_some
             (\<lambda>kw. if ci_prefix kw s
                    then (let r = drop (length kw) s;
                              sp = takeWhile isSpace r;
                              nm = takeWhile isLetter (dropWhile isSpace r)
                          in if sp \<noteq> [] \<and> 2 \<le> length nm then Some nm else None)
                    else None)
             kws
      else None)"

text \<open>
  \<open>\b([A-Z][a-z]+)\s+(?:kw1|...)\<close> at one position: only the whole run of letters
  can be followed by white space, and only the whole run of white space by a keyword.
\<close>

definition match_name_keyword :: "string list \<Rightarrow> char option \<Rightarrow> string \<Rightarrow> string option" where
  "match_name_keyword kws prev s =
     (if word_boundary prev s
      then (let nm = takeWhile isLetter s;
                r = dropWhile isLetter s;
                sp = takeWhile isSpace r;
                r2 = dropWhile isSpace r
            in if 2 \<le> length nm \<and> sp \<noteq> [] \<and> list_ex (\<lambda>kw. ci_prefix kw r2) kws
               then Some nm else None)
      else None)"

text \<open>\<open>message.match(pattern)\<close>: the leftmost position where the pattern matches.\<close>

fun regex_search ::
  "(char option \<Rightarrow> string \<Rightarrow> string option) \<Rightarrow> char option \<Rightarrow> string \<Rightarrow> string option"
where
  "regex_search m prev [] = m prev []"
| "regex_search m prev (c # cs) =
     (case m prev (c # cs) of Some g \<Rightarrow> Some g | None \<Rightarrow> regex_search m (Some c) cs)"

definition name_patterns :: "(char option \<Rightarrow> string \<Rightarrow> string option) list" where
  "name_patterns =
     [match_keyword_name [''book'', ''schedule''],
      match_keyword_name [''for'', ''patient''],
      match_name_keyword [''tomorrow'', ''today'', ''next'', ''at'', ''for'']]"

definition extractName :: "platform \<Rightarrow> string \<Rightarrow> string option" where
  "extractName p message =
     (let people = nlp_people p message
      in if people \<noteq> [] then Some (hd people)
         else first_some (\<lambda>pattern. regex_search pattern None message) name_patterns)"

definition extractTime :: "platform \<Rightarrow> string \<Rightarrow> string option" where
  "extractTime p message =
     (case chrono_parseDate p message of
        None \<Rightarrow> None
      | Some parsed \<Rightarrow> Some (toISOString p parsed))"

definition extractLocation :: "string \<Rightarrow> string" where
  "extractLocation message =
     (let lower = toLowerCase message
      in if str_includes lower ''midtown'' then ''Midtown''
         else if str_includes lower ''uptown'' then ''Uptown''
         else if str_includes lower ''downtown'' then ''Downtown''
         else if str_includes lower ''brooklyn'' then ''Brooklyn''
         else if str_includes lower ''queens'' then ''Queens''
         else if str_includes lower ''bronx'' then ''Bronx''
         else if str_includes lower ''manhattan'' then ''Manhattan''
         else ''Midtown'')"

fun ci_includes :: "string \<Rightarrow> string \<Rightarrow> bool" where
  "ci_includes [] kw = (kw = [])"
| "ci_includes (c # cs) kw = (ci_prefix kw (c # cs) \<or> ci_includes cs kw)"

definition isReschedule :: "string \<Rightarrow> bool" where
  "isReschedule message =
     list_ex (\<lambda>kw. ci_includes message kw)
       [''make it'', ''change to'', ''move'', ''reschedule'', ''change the'', ''move it'']"


subsection \<open>Replies, plan steps and tool calls\<close>

text \<open>
  A plan step is \<open>{step, ..., latency_ms}\<close>. The latencies are wall-clock
  measurements; the model leaves them out of the steps and of the reply.
\<close>

datatype step_detail =
    Detected intents
  | Extracted "string option" "string option" string
  | ExtractedTime "string option"
  | ToolStatus string
  | DocsFound nat

record plan_step =
  step :: string
  detail :: step_detail

record tool_call =
  tc_name :: string
  tc_args :: "(string \<times> string) list"
  tc_result :: tool_result

text \<open>
  The reply of a turn: \<open>{reply, citations, plan_steps, tool_calls?, error?}\<close>.
  \<open>tool_calls = None\<close> and \<open>error_message = None\<close> stand for an absent field.
\<close>

record response = answer +
  plan_steps :: "plan_step list"
  tool_calls :: "tool_call list option"
  error_message :: "string option"

definition falsy :: "string option \<Rightarrow> bool" where
  "falsy x = (x = None \<or> x = Some [])"

definition format_slot :: "platform \<Rightarrow> string \<Rightarrow> string" where
  "format_slot p slot_iso =
     (case date_parse p slot_iso of None \<Rightarrow> ''Invalid Date'' | Some d \<Rightarrow> toLocaleString p d)"

definition status_of :: "tool_result \<Rightarrow> string" where
  "status_of r = (case r of Ok a \<Rightarrow> ''success'' | Failed e \<Rightarrow> ''failed'')"

definition booked_reply :: "platform \<Rightarrow> string \<Rightarrow> string \<Rightarrow> appointment \<Rightarrow> string" where
  "booked_reply p name loc a =
     ''Booked '' @ name @ '' for '' @ format_slot p (normalized_slot_iso a) @ '' at '' @ loc @
     '' ('' @ appt_id a @ '').''"

definition schedule_call :: "string \<Rightarrow> string \<Rightarrow> string \<Rightarrow> tool_result \<Rightarrow> tool_call" where
  "schedule_call name slot loc r =
     \<lparr>tc_name = ''schedule_appointment'',
      tc_args = [(''name'', name), (''slot'', slot), (''location'', loc)],
      tc_result = r\<rparr>"

text \<open>The templated prompts; \<open>CHR 0x27\<close> is the single quote.\<close>

definition schedule_prompt :: string where
  "schedule_prompt =
     ''I need a patient name and time to schedule. For example: '' @ [CHR 0x27] @
     ''Book Chen for tomorrow at 10:30'' @ [CHR 0x27]"

definition reschedule_prompt :: string where
  "reschedule_prompt =
     ''I need a new time to reschedule. For example: '' @ [CHR 0x27] @ ''Make it 11:00'' @
     [CHR 0x27] @ '' or '' @ [CHR 0x27] @ ''Change to 2pm'' @ [CHR 0x27]"

definition plain_reply :: "string \<Rightarrow> plan_step list \<Rightarrow> response" where
  "plain_reply r steps =
     \<lparr>reply = r, citations = [], plan_steps = steps, tool_calls = None, error_message = None\<rparr>"

subsection \<open>The subflows\<close>

text \<open>
  \<open>planSteps\<close> is one array that every subflow pushes to and that the \<open>catch\<close> of
  \<open>orchestrate\<close> reads. A subflow of the model returns its outcome, the array as it
  stands when the subflow returns or throws, and the state.
\<close>

definition handleSchedule ::
  "platform \<Rightarrow> string \<Rightarrow> string \<Rightarrow> plan_step list \<Rightarrow> world \<Rightarrow>
   (response outcome \<times> plan_step list \<times> world) option"
where
  "handleSchedule p sessionId message planSteps w =
     (let chronoDate = extractTime p message;
          name = extractName p message;
          loc = extractLocation message;
          steps1 = planSteps @
                   [\<lparr>step = ''extract_entities'', detail = Extracted name chronoDate loc\<rparr>]
      in if falsy name \<or> falsy chronoDate
         then Some (Returns (plain_reply schedule_prompt steps1), steps1, w)
         else (case scheduleAppointment p (the name) (the chronoDate) loc w of
                 None \<Rightarrow> None
               | Some (result, w1) \<Rightarrow>
                   (let steps2 = steps1 @ [\<lparr>step = ''schedule_appointment'',
                                            detail = ToolStatus (status_of result)\<rparr>]
                    in case result of
                         Ok a \<Rightarrow>
                           (case setLastAppt p sessionId (the name) (the chronoDate) loc
                                   (appt_id a) w1 of
                              (Throws e, w2) \<Rightarrow> Some (Throws e, steps2, w2)
                            | (Returns u, w2) \<Rightarrow>
                                Some (Returns
                                        \<lparr>reply = booked_reply p (the name) loc a,
                                         citations = [], plan_steps = steps2,
                                         tool_calls = Some [schedule_call (the name)
                                                              (the chronoDate) loc result],
                                         error_message = None\<rparr>, steps2, w2))
                       | Failed err \<Rightarrow>
                           Some (Returns (plain_reply (''Failed to schedule appointment: '' @ err)
                                            steps2), steps2, w1))))"

definition handleReschedule ::
  "platform \<Rightarrow> string \<Rightarrow> string \<Rightarrow> appt_context \<Rightarrow> plan_step list \<Rightarrow> world \<Rightarrow>
   response outcome \<times> plan_step list \<times> world"
where
  "handleReschedule p sessionId message ctx planSteps w =
     (let chronoDate = extractTime p message;
          steps1 = planSteps @ [\<lparr>step = ''extract_time'', detail = ExtractedTime chronoDate\<rparr>]
      in if falsy chronoDate
         then (Returns (plain_reply reschedule_prompt steps1), steps1, w)
         else (case rescheduleAppointment p (la_appt_id ctx) (the chronoDate) w of
                 (result, w1) \<Rightarrow>
                   (let steps2 = steps1 @ [\<lparr>step = ''reschedule_appointment'',
                                            detail = ToolStatus (status_of result)\<rparr>]
                    in case result of
                         Ok a \<Rightarrow>
                           (case setLastAppt p sessionId (patient a) (the chronoDate)
                                   (location a) (appt_id a) w1 of
                              (Throws e, w2) \<Rightarrow> (Throws e, steps2, w2)
                            | (Returns u, w2) \<Rightarrow>
                                (Returns
                                   \<lparr>reply = ''Rebooked '' @ patient a @ '' for '' @
                                            format_slot p (normalized_slot_iso a) @ '' at '' @
                                            location a @ '' ('' @ appt_id a @ '').'',
                                    citations = [], plan_steps = steps2,
                                    tool_calls =
                                      Some [\<lparr>tc_name = ''reschedule_appointment'',
                                             tc_args = [(''appt_id'', la_appt_id ctx),
                                                        (''new_slot_iso'', the chronoDate)],
                                             tc_result = result\<rparr>],
                                    error_message = None\<rparr>, steps2, w2))
                       | Failed err \<Rightarrow>
                           (Returns (plain_reply (''Failed to reschedule: '' @ err) steps2),
                            steps2, w1))))"

definition knowledge_step :: "answer \<Rightarrow> plan_step" where
  "knowledge_step a =
     \<lparr>step = ''retrieve_knowledge'', detail = DocsFound (length (citations a))\<rparr>"

definition handleKnowledge ::
  "kenv \<Rightarrow> string \<Rightarrow> plan_step list \<Rightarrow> world \<Rightarrow> response outcome \<times> plan_step list \<times> world"
where
  "handleKnowledge env message planSteps w =
     (let a = getKnowledgeAnswer env message;
          steps1 = planSteps @ [knowledge_step a]
      in (Returns \<lparr>reply = reply a, citations = citations a, plan_steps = steps1,
                   tool_calls = None, error_message = None\<rparr>, steps1, w))"


text \<open>
  \<open>handleDualIntent\<close> runs the knowledge branch and the schedule branch under
  \<open>Promise.all\<close>. The knowledge branch pushes its step after its first \<open>await\<close>, the
  schedule branch pushes \<open>extract_entities\<close> before its first, so that step is first.
  Where the knowledge step lands after that depends on which calls return first:
  before the schedule step, after it and before the session write has returned, or
  after the schedule branch is done. The two branches use different Redis keys.
\<close>

datatype interleaving = KnowledgeFirst | KnowledgeBeforeMemory | KnowledgeLast

fun join_space :: "string list \<Rightarrow> string" where
  "join_space [] = []"
| "join_space [x] = x"
| "join_space (x # y # r) = x @ '' '' @ join_space (y # r)"

text \<open>
  The reply of the dual subflow from the two results; \<open>booking\<close> is the schedule
  branch's result when it scheduled (\<open>None\<close> is \<open>null\<close>).
\<close>

definition compose_dual ::
  "platform \<Rightarrow> answer \<Rightarrow> (tool_result \<times> string \<times> string \<times> string) option \<Rightarrow>
   plan_step list \<Rightarrow> response"
where
  "compose_dual p knowledgeResult booking steps =
     (let part1 = (if reply knowledgeResult \<noteq> [] then [reply knowledgeResult] else []);
          booked = (case booking of
                      Some (Ok a, name, slot, loc) \<Rightarrow>
                        Some (booked_reply p name loc a, schedule_call name slot loc (Ok a))
                    | _ \<Rightarrow> None);
          part2 = (case booked of Some (r, c) \<Rightarrow> [r] | None \<Rightarrow> []);
          toolCalls = (case booked of Some (r, c) \<Rightarrow> [c] | None \<Rightarrow> [])
      in \<lparr>reply = join_space (part1 @ part2), citations = citations knowledgeResult,
          plan_steps = steps, tool_calls = Some toolCalls, error_message = None\<rparr>)"

definition handleDualIntent ::
  "platform \<Rightarrow> kenv \<Rightarrow> interleaving \<Rightarrow> string \<Rightarrow> string \<Rightarrow> plan_step list \<Rightarrow> world \<Rightarrow>
   (response outcome \<times> plan_step list \<times> world) option"
where
  "handleDualIntent p env il sessionId message planSteps w =
     (let knowledgeResult = getKnowledgeAnswer env message;
          k = knowledge_step knowledgeResult;
          chronoDate = extractTime p message;
          name = extractName p message;
          loc = extractLocation message;
          steps1 = planSteps @
                   [\<lparr>step = ''extract_entities'', detail = Extracted name chronoDate loc\<rparr>]
      in if falsy name \<or> falsy chronoDate
         then Some (Returns (compose_dual p knowledgeResult None (steps1 @ [k])), steps1 @ [k], w)
         else (case scheduleAppointment p (the name) (the chronoDate) loc w of
                 None \<Rightarrow> None
               | Some (result, w1) \<Rightarrow>
                   (let s = \<lparr>step = ''schedule_appointment'',
                             detail = ToolStatus (status_of result)\<rparr>;
                        steps2 = (if il = KnowledgeFirst then steps1 @ [k, s]
                                  else steps1 @ [s, k]);
                        booking = Some (result, the name, the chronoDate, loc)
                    in case result of
                         Ok a \<Rightarrow>
                           (case setLastAppt p sessionId (the name) (the chronoDate) loc
                                   (appt_id a) w1 of
                              (Throws e, w2) \<Rightarrow>
                                Some (Throws e,
                                      (case il of
                                         KnowledgeFirst \<Rightarrow> steps1 @ [k, s]
                                       | KnowledgeBeforeMemory \<Rightarrow> steps1 @ [s, k]
                                       | KnowledgeLast \<Rightarrow> steps1 @ [s]), w2)
                            | (Returns u, w2) \<Rightarrow>
                                Some (Returns (compose_dual p knowledgeResult booking steps2),
                                      steps2, w2))
                       | Failed err \<Rightarrow>
                           Some (Returns (compose_dual p knowledgeResult booking steps2),
                                 steps2, w1))))"

subsection \<open>orchestrate\<close>

text \<open>
  The chain of \<open>if\<close>s of \<open>orchestrate\<close> that picks the subflow; \<open>ctx\<close> is the
  session's \<open>last_appt\<close> or \<open>null\<close>.
\<close>

datatype route = DualIntent | Reschedule appt_context | Schedule | Knowledge | Clarification

definition route_of :: "intents \<Rightarrow> string \<Rightarrow> appt_context option \<Rightarrow> route" where
  "route_of intent message ctx =
     (if knowledge intent \<and> schedule intent then DualIntent
      else if schedule intent
           then (case ctx of
                   Some c \<Rightarrow> if isReschedule message then Reschedule c else Schedule
                 | None \<Rightarrow> Schedule)
      else if knowledge intent then Knowledge
      else Clarification)"

definition clarification :: string where
  "clarification =
     ''I'm not sure what you mean. You can ask about our policies or schedule an appointment.''"

text \<open>The reply of the \<open>catch\<close> of \<open>orchestrate\<close>.\<close>

definition error_reply :: "string \<Rightarrow> plan_step list \<Rightarrow> response" where
  "error_reply e steps =
     \<lparr>reply = ''Sorry, I encountered an error processing your request.'', citations = [],
      plan_steps = steps, tool_calls = None, error_message = Some e\<rparr>"

definition orchestrate ::
  "platform \<Rightarrow> classifier \<Rightarrow> kenv \<Rightarrow> interleaving \<Rightarrow> string \<Rightarrow> string \<Rightarrow> world \<Rightarrow>
   (response \<times> world) option"
where
  "orchestrate p cls env il sessionId message w =
     (let intent = predict cls message;
          steps0 = [\<lparr>step = ''intent_detection'', detail = Detected intent\<rparr>]
      in case getLastAppt sessionId w of
           (Throws e, w1) \<Rightarrow> Some (error_reply e steps0, w1)
         | (Returns ctx, w1) \<Rightarrow>
             (case (case route_of intent message ctx of
                      DualIntent \<Rightarrow> handleDualIntent p env il sessionId message steps0 w1
                    | Reschedule c \<Rightarrow> Some (handleReschedule p sessionId message c steps0 w1)
                    | Schedule \<Rightarrow> handleSchedule p sessionId message steps0 w1
                    | Knowledge \<Rightarrow> Some (handleKnowledge env message steps0 w1)
                    | Clarification \<Rightarrow> Some (Returns (plain_reply clarification steps0), steps0, w1)) of
                None \<Rightarrow> None
              | Some (Throws e, steps, w2) \<Rightarrow> Some (error_reply e steps, w2)
              | Some (Returns r, steps, w2) \<Rightarrow> Some (r, w2)))"


section \<open>The statements of the specification, and sample data\<close>

text \<open>
  The definitions of this section follow the words of the specification, so that the
  theorems can compare them with the functions above; a few more name notions of the
  proofs, and the rest is sample data for the examples.
\<close>

text \<open>
  Some prediction with the label \<open>l\<close> has a confidence above the threshold of
  \<open>predict\<close>.
\<close>

definition crosses :: "prediction list \<Rightarrow> string \<Rightarrow> bool" where
  "crosses ps l = (\<exists>p\<in>set ps. label_of p = l \<and> 3 / 10 < pred_value p)"


subsection \<open>Rank fusion\<close>

text \<open>
  The 0-based rank of the candidate with identifier \<open>c\<close> in a source list, its
  contribution \<open>1 / (60 + rank + 1)\<close> (nothing when the source does not hold it), and
  the fused score: the sum of the contributions of the two sources.
\<close>

fun rank_in :: "string \<Rightarrow> hit list \<Rightarrow> nat option" where
  "rank_in c [] = None"
| "rank_in c (x # xs) = (if hit_id x = c then Some 0 else map_option Suc (rank_in c xs))"

definition contribution :: "string \<Rightarrow> hit list \<Rightarrow> real" where
  "contribution c xs = (case rank_in c xs of None \<Rightarrow> 0 | Some r \<Rightarrow> 1 / (60 + real r + 1))"

definition fused_score :: "hit list \<Rightarrow> hit list \<Rightarrow> string \<Rightarrow> real" where
  "fused_score bm vec c = contribution c bm + contribution c vec"

text \<open>
  The rank in the lexical source; a candidate the lexical source does not hold ranks
  after all it holds.
\<close>

definition lexical_rank :: "hit list \<Rightarrow> string \<Rightarrow> nat" where
  "lexical_rank bm c = (case rank_in c bm of None \<Rightarrow> length bm | Some r \<Rightarrow> r)"

text \<open>
  The order of the specification: the higher fused score first, then the lower lexical
  rank, then the smaller \<open>point_id\<close> in the lexicographic order of strings.
\<close>

definition fused_before :: "hit list \<Rightarrow> hit list \<Rightarrow> hit \<Rightarrow> hit \<Rightarrow> bool" where
  "fused_before bm vec a b =
     (fused_score bm vec (hit_id b) < fused_score bm vec (hit_id a) \<or>
      (fused_score bm vec (hit_id a) = fused_score bm vec (hit_id b) \<and>
       (lexical_rank bm (hit_id a) < lexical_rank bm (hit_id b) \<or>
        (lexical_rank bm (hit_id a) = lexical_rank bm (hit_id b) \<and> hit_id a < hit_id b))))"

text \<open>
  Two notions for the proofs: the contribution when the ranks of a list start at \<open>k\<close>,
  and the order in which \<open>scoreMap\<close> holds the candidates before it is sorted.
\<close>

definition contribution_from :: "nat \<Rightarrow> string \<Rightarrow> hit list \<Rightarrow> real" where
  "contribution_from k c xs = (case rank_in c xs of None \<Rightarrow> 0 | Some r \<Rightarrow> rrfScore (k + r))"

definition fusion_order :: "hit list \<Rightarrow> hit list \<Rightarrow> hit list" where
  "fusion_order bm vec = bm @ filter (\<lambda>v. hit_id v \<notin> hit_id ` set bm) vec"

subsection \<open>Diversity selection\<close>

text \<open>
  The set of lower-cased words of a chunk text, split at white space, the Jaccard
  similarity of two texts, and the quantity a step of the selection maximises: half the
  fused score minus half the largest similarity to a chunk selected before.
\<close>

definition word_set :: "string \<Rightarrow> string set" where
  "word_set t = set (splitWs (toLowerCase t))"

definition jaccard :: "string \<Rightarrow> string \<Rightarrow> real" where
  "jaccard t1 t2 =
     real (card (word_set t1 \<inter> word_set t2)) / real (card (word_set t1 \<union> word_set t2))"

definition mmr_objective :: "hit list \<Rightarrow> hit \<Rightarrow> real" where
  "mmr_objective selected c =
     1 / 2 * score c -
     1 / 2 * Max ((\<lambda>s. jaccard (chunk_text (payload c)) (chunk_text (payload s))) ` set selected)"

text \<open>
  Element \<open>n\<close> of \<open>out\<close> is a greedy choice: it is one of the candidates that remain
  after the first \<open>n\<close> elements are taken out of \<open>results\<close>, and none of them has a
  larger objective against those \<open>n\<close> elements.
\<close>

definition greedy_choice :: "hit list \<Rightarrow> hit list \<Rightarrow> nat \<Rightarrow> bool" where
  "greedy_choice results out n =
     (out ! n \<in># mset results - mset (take n out) \<and>
      (\<forall>c \<in># mset results - mset (take n out).
         mmr_objective (take n out) c \<le> mmr_objective (take n out) (out ! n)))"

text \<open>The same for the loop of the code, with its own score and any \<open>lambda\<close>.\<close>

definition loop_step :: "real \<Rightarrow> hit multiset \<Rightarrow> hit list \<Rightarrow> nat \<Rightarrow> bool" where
  "loop_step lam U out n =
     (out ! n \<in># U - mset (take n out) \<and>
      (\<forall>c \<in># U - mset (take n out).
         mmrScore lam (take n out) c \<le> mmrScore lam (take n out) (out ! n)))"

subsection \<open>Sample data\<close>

text \<open>Three chunks, two lexical results and three dense results for the examples.\<close>

definition sample_a :: hit where
  "sample_a =
     \<lparr>hit_id = ''a'', score = 3 / 100,
      payload = \<lparr>chunk_text = ''Late policy grace period'', doc_id = ''pol-1'', chunk_index = 0\<rparr>\<rparr>"

definition sample_b :: hit where
  "sample_b =
     \<lparr>hit_id = ''b'', score = 29 / 1000,
      payload = \<lparr>chunk_text = ''late policy grace'', doc_id = ''pol-1'', chunk_index = 1\<rparr>\<rparr>"

definition sample_c :: hit where
  "sample_c =
     \<lparr>hit_id = ''c'', score = 1 / 100,
      payload = \<lparr>chunk_text = ''parking garage hours'', doc_id = ''park-1'', chunk_index = 0\<rparr>\<rparr>"

definition sample_bm25 :: "hit list" where
  "sample_bm25 = [sample_a, sample_b]"

definition sample_vector :: "hit list" where
  "sample_vector = [sample_b, sample_a, sample_c]"


subsection \<open>Degraded retrieval\<close>

text \<open>
  The dense branch fails: no cached embedding and the embedding provider throws, or
  the embedding is there and the vector database throws.
\<close>

definition dense_fails :: "kenv \<Rightarrow> string \<Rightarrow> bool" where
  "dense_fails env query =
     ((getCachedEmbedding env query = None \<and> (\<exists>e. openai_embed env query = Throws e)) \<or>
      (\<exists>emb e. generateEmbedding env query = Returns emb \<and>
                qdrant_search env emb 8 = Throws e))"

text \<open>
  A sample environment: every cache misses and every cache write succeeds, the
  embedding provider is down, and the lexical index holds one chunk. \<open>base64\<close> is
  any injective encoding; the sample takes the identity.
\<close>

definition sample_env :: kenv where
  "sample_env =
     \<lparr>base64 = (\<lambda>s. s),
      knowledge_get = (\<lambda>k. Returns None),
      knowledge_setex = (\<lambda>k a. Returns ()),
      query_get = (\<lambda>k. Returns None),
      query_setex = (\<lambda>k r. Returns ()),
      emb_get = (\<lambda>k. Returns None),
      emb_setex = (\<lambda>k e. Returns ()),
      openai_embed = (\<lambda>t. Throws ''Connection error.''),
      qdrant_search = (\<lambda>e n. Returns []),
      tfidf_documents = 1,
      tfidfs = (\<lambda>q. Returns [3 / 2]),
      documentMap = (\<lambda>i. if i = 0
                          then Some \<lparr>d_id = ''p-1'',
                                     d_text = ''Patients arriving more than 15 minutes late are rescheduled.'',
                                     d_doc_id = ''pol-1'', d_chunk_index = 0\<rparr>
                          else None)\<rparr>"

text \<open>The answer to the sample query when every call succeeds.\<close>

definition sample_answer :: answer where
  "sample_answer =
     \<lparr>reply = ''Patients arriving more than 15 minutes late are rescheduled.'',
      citations = [\<lparr>cit_id = ''pol-1'', cit_chunk = 0, cit_score = 2 / 100, cit_ref = 1\<rparr>]\<rparr>"


subsection \<open>A sample platform and state\<close>

text \<open>
  \<open>served n w\<close>: Redis serves the next \<open>n\<close> commands issued in the state \<open>w\<close>, that
  is, none of the next \<open>n\<close> scripted outcomes is a fault.
\<close>

definition served :: "nat \<Rightarrow> world \<Rightarrow> bool" where
  "served n w = list_all (\<lambda>f. f = None) (take n (faults w))"

text \<open>
  The platform functions on the few arguments the examples use, with the clock at
  2026-11-03T10:00:00Z, and a state with no appointment, no session and no scripted
  fault.
\<close>

definition sample_platform :: platform where
  "sample_platform =
     \<lparr>date_parse = (\<lambda>s. if s = ''2026-11-04T10:30:00.000Z'' then Some 1793788200000
                        else if s = ''2026-11-04T11:00:00.000Z'' then Some 1793790000000
                        else if s = ''2026-11-04T12:00:00.000Z'' then Some 1793793600000
                        else None),
      toISOString = (\<lambda>t. if t = 1793788200000 then ''2026-11-04T10:30:00.000Z''
                         else if t = 1793790000000 then ''2026-11-04T11:00:00.000Z''
                         else if t = 1793793600000 then ''2026-11-04T12:00:00.000Z''
                         else if t = 1793700000000 then ''2026-11-03T10:00:00.000Z''
                         else ''1970-01-01T00:00:00.000Z''),
      toLocaleString = (\<lambda>t. if t = 1793788200000 then ''Nov 4, 10:30 AM''
                            else if t = 1793790000000 then ''Nov 4, 11:00 AM''
                            else if t = 1793793600000 then ''Nov 4, 12:00 PM''
                            else ''Jan 1, 12:00 AM''),
      chrono_parseDate = (\<lambda>m. if m = ''Book for tomorrow'' then Some 1793793600000
                              else if m = ''Book Chen for tomorrow at 10:30'' then Some 1793788200000
                              else if m = ''Make it 11:00'' then Some 1793790000000
                              else None),
      nlp_people = (\<lambda>m. if m = ''Book Chen for tomorrow at 10:30'' then [''Chen''] else [])\<rparr>"

definition sample_world :: world where
  "sample_world =
     \<lparr>appts = (\<lambda>k. None), appts_all = {}, sessions = (\<lambda>k. None),
      lastApptNumber = 1000, now = 1793700000000, faults = []\<rparr>"

definition sample_appointment :: appointment where
  "sample_appointment =
     \<lparr>appt_id = ''A-000000-1001'', patient = ''Chen'',
      normalized_slot_iso = ''2026-11-04T10:30:00.000Z'', location = ''Midtown'',
      status = ''scheduled'', created_at = ''2026-11-03T10:00:00.000Z'', updated_at = None\<rparr>"

text \<open>The states after scheduling Chen and after moving the appointment to 11:00.\<close>

definition sample_world1 :: world where
  "sample_world1 =
     sample_world\<lparr>appts := (appts sample_world)(''A-000000-1001'' \<mapsto> sample_appointment),
                   appts_all := {''A-000000-1001''}, lastApptNumber := 1001\<rparr>"

definition sample_rescheduled :: appointment where
  "sample_rescheduled =
     sample_appointment\<lparr>normalized_slot_iso := ''2026-11-04T11:00:00.000Z'',
                         updated_at := Some ''2026-11-03T10:00:00.000Z''\<rparr>"

definition sample_world2 :: world where
  "sample_world2 =
     sample_world1\<lparr>appts := (appts sample_world1)(''A-000000-1001'' \<mapsto> sample_rescheduled)\<rparr>"

text \<open>
  A classifier that is sure of the schedule intent, and the appointment the turn
  "Book for tomorrow" creates.
\<close>

definition sample_classifier :: classifier where
  "sample_classifier =
     Predicts [\<lparr>pred_label = ''__label__schedule'', pred_value = 99 / 100\<rparr>,
               \<lparr>pred_label = ''__label__knowledge'', pred_value = 1 / 100\<rparr>]"

definition booking_for :: appointment where
  "booking_for =
     \<lparr>appt_id = ''A-000000-1001'', patient = ''for'',
      normalized_slot_iso = ''2026-11-04T12:00:00.000Z'', location = ''Midtown'',
      status = ''scheduled'', created_at = ''2026-11-03T10:00:00.000Z'', updated_at = None\<rparr>"


section \<open>Intent detection: the threshold and the keyword fall-back\<close>

lemma fold_check_schedule:
  "schedule (foldl check_prediction i ps) =
     (schedule i \<or> (\<exists>p\<in>set ps. label_of p = ''schedule'' \<and> 3 / 10 < pred_value p))"
  by (induction ps arbitrary: i) (auto simp: check_prediction_def Let_def)

lemma fold_check_knowledge:
  "knowledge (foldl check_prediction i ps) =
     (knowledge i \<or> (\<exists>p\<in>set ps. label_of p = ''knowledge'' \<and> 3 / 10 < pred_value p))"
  by (induction ps arbitrary: i) (auto simp: check_prediction_def Let_def)

text \<open>
  C5, as the code has it. On the trained-model path a label is set when one of its
  predictions has a confidence strictly above 0.3, or when no prediction of either
  label is above 0.3 and the label is the first prediction's. A confidence of exactly
  0.3 does not pass the threshold.
\<close>

theorem predict_threshold_strict:
  "schedule (predict (Predicts ps) m) =
     (crosses ps ''schedule'' \<or>
      (ps \<noteq> [] \<and> \<not> crosses ps ''schedule'' \<and> \<not> crosses ps ''knowledge'' \<and>
       label_of (hd ps) = ''schedule''))
   \<and> knowledge (predict (Predicts ps) m) =
     (crosses ps ''knowledge'' \<or>
      (ps \<noteq> [] \<and> \<not> crosses ps ''schedule'' \<and> \<not> crosses ps ''knowledge'' \<and>
       label_of (hd ps) = ''knowledge''))"
  by (auto simp: predict_def Let_def crosses_def fold_check_schedule fold_check_knowledge
      set_intent_def)

theorem predict_threshold_strict_witness:
  "schedule (predict (Predicts [\<lparr>pred_label = ''__label__schedule'', pred_value = 2 / 10\<rparr>,
                                 \<lparr>pred_label = ''__label__knowledge'', pred_value = 1 / 10\<rparr>])
               ''hello'')
   \<and> \<not> knowledge (predict (Predicts [\<lparr>pred_label = ''__label__schedule'', pred_value = 2 / 10\<rparr>,
                                 \<lparr>pred_label = ''__label__knowledge'', pred_value = 1 / 10\<rparr>])
               ''hello'')"
  using predict_threshold_strict
    [of "[\<lparr>pred_label = ''__label__schedule'', pred_value = 2 / 10\<rparr>,
          \<lparr>pred_label = ''__label__knowledge'', pred_value = 1 / 10\<rparr>]" "''hello''"]
  by (simp add: crosses_def label_of_def)

text \<open>
  C5, as the specification states it, fails: the schedule label comes back with a
  confidence of exactly 0.3 next to a knowledge label at 0.7, and it is not set.
\<close>

theorem predict_threshold_counterexample:
  "pred_value \<lparr>pred_label = ''__label__schedule'', pred_value = 3 / 10\<rparr> \<ge> 3 / 10 \<and>
   \<not> schedule (predict (Predicts [\<lparr>pred_label = ''__label__knowledge'', pred_value = 7 / 10\<rparr>,
                                   \<lparr>pred_label = ''__label__schedule'', pred_value = 3 / 10\<rparr>])
                  ''what is the late policy and can I come in'')"
  by (simp add: predict_def check_prediction_def label_of_def Let_def)

text \<open>
  C10. When the classification falls back to the keywords (the model is not ready, or
  its call throws), the two flags are never both set, the knowledge flag is set only
  when no schedule keyword occurs in the lower-cased message, and \<open>orchestrate\<close> does
  not take the dual subflow.
\<close>

theorem keyword_fallback_never_dual:
  "cls = NotReady \<or> cls = PredictThrows \<Longrightarrow>
     \<not> (schedule (predict cls m) \<and> knowledge (predict cls m)) \<and>
     (knowledge (predict cls m) \<longrightarrow>
        \<not> list_ex (\<lambda>kw. str_includes (toLowerCase m) kw) scheduleKeywords) \<and>
     route_of (predict cls m) m ctx \<noteq> DualIntent"
  by (auto simp: predict_def keywordFallback_def Let_def route_of_def split: option.splits)

theorem keyword_fallback_never_dual_witness:
  "(NotReady = NotReady \<or> NotReady = PredictThrows) \<and>
   knowledge (predict NotReady ''What is the late policy?'') \<and>
   \<not> list_ex (\<lambda>kw. str_includes (toLowerCase ''What is the late policy?'') kw) scheduleKeywords \<and>
   route_of (predict NotReady ''What is the late policy?'') ''What is the late policy?'' None
     \<noteq> DualIntent"
proof -
  have k: "knowledge (predict NotReady ''What is the late policy?'')"
    by (simp add: predict_def keywordFallback_def Let_def toLowerCase_def toLowerCaseChar_def
        scheduleKeywords_def knowledgeKeywords_def)
  from keyword_fallback_never_dual [of NotReady "''What is the late policy?''" None] k
  show ?thesis by simp
qed


section \<open>Rank fusion\<close>

lemma contribution_from_0: "contribution_from 0 c xs = contribution c xs"
  by (cases "rank_in c xs") (simp_all add: contribution_from_def contribution_def rrfScore_def)

lemma rank_in_None: "rank_in c xs = None \<longleftrightarrow> c \<notin> hit_id ` set xs"
  by (induction xs) auto

lemma contribution_from_absent: "c \<notin> hit_id ` set xs \<Longrightarrow> contribution_from k c xs = 0"
  using rank_in_None[of c xs] by (simp add: contribution_from_def)

lemma contribution_from_Cons_same: "contribution_from k (hit_id x) (x # xs) = rrfScore k"
  by (simp add: contribution_from_def)

lemma contribution_from_Cons_other:
  "hit_id x \<noteq> c \<Longrightarrow> contribution_from k c (x # xs) = contribution_from (Suc k) c xs"
  by (cases "rank_in c xs") (simp_all add: contribution_from_def)

lemma map_set_absent: "k \<notin> fst ` set m \<Longrightarrow> map_set k v m = m @ [(k, v)]"
  by (induction m) auto

lemma map_set_present:
  "k \<in> fst ` set m \<Longrightarrow> distinct (map fst m) \<Longrightarrow>
     map_set k v m = map (\<lambda>(c, x). if c = k then (k, v) else (c, x)) m"
proof (induction m)
  case Nil then show ?case by simp
next
  case (Cons e m)
  obtain c x where e: "e = (c, x)" by (cases e)
  show ?case
  proof (cases "c = k")
    case True
    with Cons.prems e have "k \<notin> fst ` set m" by auto
    then have "map (\<lambda>(c, x). if c = k then (k, v) else (c, x)) m = m"
      by (induction m) auto
    with True e show ?thesis by simp
  next
    case False
    with Cons e show ?thesis by auto
  qed
qed

lemma add_bm25_form:
  "distinct (map hit_id rs) \<Longrightarrow> hit_id ` set rs \<inter> fst ` set m = {} \<Longrightarrow>
     add_bm25 m rs k = m @ map (\<lambda>r. (hit_id r, (contribution_from k (hit_id r) rs, r))) rs"
proof (induction rs arbitrary: m k)
  case Nil then show ?case by simp
next
  case (Cons r rs)
  have abs: "hit_id r \<notin> fst ` set m" using Cons.prems(2) by auto
  have d: "distinct (map hit_id rs)" and nr: "hit_id r \<notin> hit_id ` set rs"
    using Cons.prems(1) by auto
  have ne: "\<And>x. x \<in> set rs \<Longrightarrow> hit_id r \<noteq> hit_id x" using nr by auto
  have disj: "hit_id ` set rs \<inter> fst ` set (m @ [(hit_id r, (rrfScore k, r))]) = {}"
    using Cons.prems(2) nr by auto
  have "add_bm25 m (r # rs) k = add_bm25 (m @ [(hit_id r, (rrfScore k, r))]) rs (Suc k)"
    by (simp add: map_set_absent[OF abs])
  also have "\<dots> = (m @ [(hit_id r, (rrfScore k, r))]) @
      map (\<lambda>x. (hit_id x, (contribution_from (Suc k) (hit_id x) rs, x))) rs"
    by (rule Cons.IH[OF d disj])
  also have "map (\<lambda>x. (hit_id x, (contribution_from (Suc k) (hit_id x) rs, x))) rs =
      map (\<lambda>x. (hit_id x, (contribution_from k (hit_id x) (r # rs), x))) rs"
    using ne by (intro map_cong refl) (simp add: contribution_from_Cons_other)
  finally show ?case by (simp add: contribution_from_Cons_same)
qed

lemma map_of_present:
  "k \<in> fst ` set m \<Longrightarrow> \<exists>v. map_of m k = Some v \<and> (k, v) \<in> set m"
  by (induction m) auto

lemma add_vector_form:
  "distinct (map hit_id vs) \<Longrightarrow> distinct (map fst m) \<Longrightarrow>
     add_vector m vs k =
       map (\<lambda>(c, s, r). (c, (s + contribution_from k c vs, r))) m @
       map (\<lambda>v. (hit_id v, (contribution_from k (hit_id v) vs, v)))
         (filter (\<lambda>v. hit_id v \<notin> fst ` set m) vs)"
proof (induction vs arbitrary: m k)
  case Nil
  then show ?case by (simp add: contribution_from_def)
next
  case (Cons v vs)
  let ?c = "hit_id v"
  have d: "distinct (map hit_id vs)" and nv: "?c \<notin> hit_id ` set vs"
    using Cons.prems(1) by auto
  have ne: "\<And>x. x \<in> set vs \<Longrightarrow> ?c \<noteq> hit_id x" using nv by auto
  show ?case
  proof (cases "?c \<in> fst ` set m")
    case True
    then obtain s r0 where mo: "map_of m ?c = Some (s, r0)" and mem: "(?c, (s, r0)) \<in> set m"
      using map_of_present[OF True] by (metis prod.collapse)
    let ?m1 = "map (\<lambda>(c, x). if c = ?c then (?c, (s + rrfScore k, r0)) else (c, x)) m"
    have m1: "map_set ?c (s + rrfScore k, r0) m = ?m1"
      by (rule map_set_present[OF True Cons.prems(2)])
    have keys: "map fst ?m1 = map fst m" by (induction m) auto
    then have keys_set: "fst ` set ?m1 = fst ` set m" by (metis set_map)
    have d1: "distinct (map fst ?m1)" unfolding keys by (rule Cons.prems(2))
    have step: "add_vector m (v # vs) k = add_vector ?m1 vs (Suc k)"
      using mo m1 by simp
    have uniq: "\<And>s' r'. (?c, (s', r')) \<in> set m \<Longrightarrow> s' = s \<and> r' = r0"
      using mem Cons.prems(2) by (meson eq_key_imp_eq_value prod.inject)
    have left: "map (\<lambda>(c, s, r). (c, (s + contribution_from (Suc k) c vs, r))) ?m1 =
                map (\<lambda>(c, s, r). (c, (s + contribution_from k c (v # vs), r))) m"
      unfolding map_map
    proof (intro map_cong refl)
      fix e assume e: "e \<in> set m"
      obtain c s' r' where ee: "e = (c, (s', r'))" by (cases e) auto
      show "((\<lambda>(c, s, r). (c, (s + contribution_from (Suc k) c vs, r))) \<circ>
             (\<lambda>(c, x). if c = ?c then (?c, (s + rrfScore k, r0)) else (c, x))) e =
            (case e of (c, s, r) \<Rightarrow> (c, (s + contribution_from k c (v # vs), r)))"
      proof (cases "c = ?c")
        case True
        with e ee uniq have "s' = s" "r' = r0" by auto
        with True ee nv show ?thesis
          by (simp add: contribution_from_Cons_same contribution_from_absent)
      next
        case False
        with ee show ?thesis by (simp add: contribution_from_Cons_other)
      qed
    qed
    have right: "map (\<lambda>x. (hit_id x, (contribution_from (Suc k) (hit_id x) vs, x)))
                   (filter (\<lambda>x. hit_id x \<notin> fst ` set m) vs) =
                 map (\<lambda>x. (hit_id x, (contribution_from k (hit_id x) (v # vs), x)))
                   (filter (\<lambda>x. hit_id x \<notin> fst ` set m) vs)"
      using ne by (intro map_cong refl) (simp_all add: contribution_from_Cons_other)
    show ?thesis
      unfolding step Cons.IH[OF d d1] keys_set left right using True by simp
  next
    case False
    let ?m1 = "m @ [(?c, (rrfScore k, v))]"
    have mo: "map_of m ?c = None" using False by (simp add: map_of_eq_None_iff)
    have step: "add_vector m (v # vs) k = add_vector ?m1 vs (Suc k)"
      using mo map_set_absent[OF False] by simp
    have d1: "distinct (map fst ?m1)" using Cons.prems(2) False by auto
    have filt: "filter (\<lambda>x. hit_id x \<notin> fst ` set ?m1) vs = filter (\<lambda>x. hit_id x \<notin> fst ` set m) vs"
      using ne by (intro filter_cong refl) (auto simp: image_iff, metis)
    have left: "map (\<lambda>(c, s, r). (c, (s + contribution_from (Suc k) c vs, r))) m =
                map (\<lambda>(c, s, r). (c, (s + contribution_from k c (v # vs), r))) m"
    proof (intro map_cong refl)
      fix e assume e: "e \<in> set m"
      obtain c s' r' where ee: "e = (c, (s', r'))" by (cases e) auto
      have "?c \<noteq> c" using e ee False by force
      then show "(case e of (c, s, r) \<Rightarrow> (c, (s + contribution_from (Suc k) c vs, r))) =
                 (case e of (c, s, r) \<Rightarrow> (c, (s + contribution_from k c (v # vs), r)))"
        using ee by (simp add: contribution_from_Cons_other)
    qed
    have right: "map (\<lambda>x. (hit_id x, (contribution_from (Suc k) (hit_id x) vs, x)))
                   (filter (\<lambda>x. hit_id x \<notin> fst ` set m) vs) =
                 map (\<lambda>x. (hit_id x, (contribution_from k (hit_id x) (v # vs), x)))
                   (filter (\<lambda>x. hit_id x \<notin> fst ` set m) vs)"
      using ne by (intro map_cong refl) (simp_all add: contribution_from_Cons_other)
    show ?thesis
      unfolding step Cons.IH[OF d d1] filt
      using False nv
      by (simp add: left right contribution_from_Cons_same contribution_from_absent)
  qed
qed

lemma contribution_absent: "c \<notin> hit_id ` set xs \<Longrightarrow> contribution c xs = 0"
  using contribution_from_absent[of c xs 0] by (simp add: contribution_from_0)

lemma score_map_form:
  assumes "distinct (map hit_id bm)" "distinct (map hit_id vec)"
  shows "add_vector (add_bm25 [] bm 0) vec 0 =
           map (\<lambda>r. (hit_id r, (fused_score bm vec (hit_id r), r)))
             (bm @ filter (\<lambda>v. hit_id v \<notin> hit_id ` set bm) vec)"
proof -
  let ?A = "map (\<lambda>r. (hit_id r, (contribution_from 0 (hit_id r) bm, r))) bm"
  have A: "add_bm25 [] bm 0 = ?A"
    using add_bm25_form[OF assms(1), of "[]" 0] by simp
  have keysA: "map fst ?A = map hit_id bm" by simp
  then have dA: "distinct (map fst ?A)" using assms(1) by (simp only:)
  have ksA: "fst ` set ?A = hit_id ` set bm" by force
  have "add_vector ?A vec 0 =
          map (\<lambda>(c, s, r). (c, (s + contribution_from 0 c vec, r))) ?A @
          map (\<lambda>v. (hit_id v, (contribution_from 0 (hit_id v) vec, v)))
            (filter (\<lambda>v. hit_id v \<notin> fst ` set ?A) vec)"
    by (rule add_vector_form[OF assms(2) dA])
  also have "map (\<lambda>(c, s, r). (c, (s + contribution_from 0 c vec, r))) ?A =
             map (\<lambda>r. (hit_id r, (fused_score bm vec (hit_id r), r))) bm"
    by (simp add: fused_score_def contribution_from_0)
  also have "map (\<lambda>v. (hit_id v, (contribution_from 0 (hit_id v) vec, v)))
               (filter (\<lambda>v. hit_id v \<notin> fst ` set ?A) vec) =
             map (\<lambda>r. (hit_id r, (fused_score bm vec (hit_id r), r)))
               (filter (\<lambda>v. hit_id v \<notin> hit_id ` set bm) vec)"
    unfolding ksA
    by (intro map_cong refl) (simp_all add: fused_score_def contribution_from_0 contribution_absent)
  finally show ?thesis by (simp add: A)
qed

lemma insort_key_map_swap:
  "insort_key f (h x) (map h ys) = map h (insort_key (\<lambda>a. f (h a)) x ys)"
  by (induction ys) auto

lemma sort_key_map_swap: "sort_key f (map h xs) = map h (sort_key (\<lambda>a. f (h a)) xs)"
  by (induction xs) (auto simp: insort_key_map_swap)

lemma mergeResults_form:
  assumes "distinct (map hit_id bm)" "distinct (map hit_id vec)"
  shows "mergeResults bm vec =
           map (\<lambda>r. r\<lparr>score := fused_score bm vec (hit_id r)\<rparr>)
             (sort_key (\<lambda>r. - fused_score bm vec (hit_id r)) (fusion_order bm vec))"
  unfolding mergeResults_def score_map_form[OF assms] sort_key_map_swap fusion_order_def
  by simp

lemma stable_sorted_wrt_aux:
  "sorted (map g xs) \<Longrightarrow> (\<And>k. sorted_wrt R (filter (\<lambda>y. g y = k) xs)) \<Longrightarrow>
     sorted_wrt (\<lambda>a b. g a < g b \<or> (g a = g b \<and> R a b)) xs"
proof (induction xs)
  case Nil then show ?case by simp
next
  case (Cons x xs)
  have tail: "\<And>k. sorted_wrt R (filter (\<lambda>y. g y = k) xs)"
  proof -
    fix k show "sorted_wrt R (filter (\<lambda>y. g y = k) xs)"
      using Cons.prems(2)[of k] by (cases "g x = k") auto
  qed
  have hd: "\<forall>y\<in>set xs. g x < g y \<or> (g x = g y \<and> R x y)"
  proof
    fix y assume y: "y \<in> set xs"
    have le: "g x \<le> g y" using Cons.prems(1) y by auto
    show "g x < g y \<or> (g x = g y \<and> R x y)"
    proof (cases "g x = g y")
      case True
      have "sorted_wrt R (x # filter (\<lambda>z. g z = g x) xs)"
        using Cons.prems(2)[of "g x"] by simp
      with y True show ?thesis by auto
    next
      case False with le show ?thesis by auto
    qed
  qed
  from Cons.IH[OF _ tail] Cons.prems(1) hd show ?case by auto
qed

lemma stable_sorted_wrt:
  fixes g :: "'a \<Rightarrow> real"
  assumes "\<And>k. sorted_wrt R (filter (\<lambda>y. g y = k) xs)"
  shows "sorted_wrt (\<lambda>a b. g a < g b \<or> (g a = g b \<and> R a b)) (sort_key g xs)"
proof (rule stable_sorted_wrt_aux)
  show "sorted (map g (sort_key g xs))" by simp
  fix k show "sorted_wrt R (filter (\<lambda>y. g y = k) (sort_key g xs))"
    using assms[of k] by (simp add: sort_key_stable)
qed

lemma rank_in_nth:
  "distinct (map hit_id xs) \<Longrightarrow> i < length xs \<Longrightarrow> rank_in (hit_id (xs ! i)) xs = Some i"
proof (induction xs arbitrary: i)
  case Nil then show ?case by simp
next
  case (Cons x xs)
  show ?case
  proof (cases i)
    case 0 then show ?thesis by simp
  next
    case (Suc j)
    with Cons.prems have j: "j < length xs" and "hit_id x \<noteq> hit_id (xs ! j)" by auto
    with Cons.IH[of j] Cons.prems(1) Suc show ?thesis by simp
  qed
qed

lemma lexical_rank_nth:
  "distinct (map hit_id bm) \<Longrightarrow> i < length bm \<Longrightarrow> lexical_rank bm (hit_id (bm ! i)) = i"
  by (simp add: lexical_rank_def rank_in_nth)

lemma lexical_rank_absent: "c \<notin> hit_id ` set bm \<Longrightarrow> lexical_rank bm c = length bm"
  using rank_in_None[of c bm] by (simp add: lexical_rank_def)

lemma contribution_nth:
  "distinct (map hit_id xs) \<Longrightarrow> i < length xs \<Longrightarrow>
     contribution (hit_id (xs ! i)) xs = 1 / (60 + real i + 1)"
  by (simp add: contribution_def rank_in_nth)

lemma contribution_distinct:
  assumes "distinct (map hit_id xs)"
  shows "distinct (map (\<lambda>r. contribution (hit_id r) xs) xs)"
  unfolding distinct_conv_nth
proof (intro allI impI)
  fix i j
  assume i: "i < length (map (\<lambda>r. contribution (hit_id r) xs) xs)"
    and j: "j < length (map (\<lambda>r. contribution (hit_id r) xs) xs)" and ne: "i \<noteq> j"
  then have "1 / (60 + real i + 1) \<noteq> 1 / (60 + real j + 1)" by (simp add: field_simps)
  with i j show "map (\<lambda>r. contribution (hit_id r) xs) xs ! i \<noteq>
                 map (\<lambda>r. contribution (hit_id r) xs) xs ! j"
    by (simp add: contribution_nth[OF assms])
qed

lemma sorted_wrt_neq: "distinct (map f xs) \<Longrightarrow> sorted_wrt (\<lambda>a b. f a \<noteq> f b) xs"
  by (induction xs) auto

lemma fusion_order_sorted:
  assumes db: "distinct (map hit_id bm)" and dv: "distinct (map hit_id vec)"
  shows "sorted_wrt (\<lambda>a b. fused_score bm vec (hit_id a) \<noteq> fused_score bm vec (hit_id b) \<or>
                          lexical_rank bm (hit_id a) < lexical_rank bm (hit_id b))
           (fusion_order bm vec)"
proof -
  let ?V = "filter (\<lambda>v. hit_id v \<notin> hit_id ` set bm) vec"
  let ?R = "\<lambda>a b. fused_score bm vec (hit_id a) \<noteq> fused_score bm vec (hit_id b) \<or>
                  lexical_rank bm (hit_id a) < lexical_rank bm (hit_id b)"
  have 1: "sorted_wrt ?R bm"
    unfolding sorted_wrt_iff_nth_less using db by (simp add: lexical_rank_nth)
  have "distinct (map (\<lambda>r. contribution (hit_id r) vec) ?V)"
    using contribution_distinct[OF dv] by (rule distinct_map_filter)
  also have "map (\<lambda>r. contribution (hit_id r) vec) ?V =
             map (\<lambda>r. fused_score bm vec (hit_id r)) ?V"
    by (intro map_cong refl) (simp add: fused_score_def contribution_absent)
  finally have "sorted_wrt (\<lambda>a b. fused_score bm vec (hit_id a) \<noteq> fused_score bm vec (hit_id b)) ?V"
    by (rule sorted_wrt_neq)
  then have 2: "sorted_wrt ?R ?V"
    by (rule sorted_wrt_mono_rel[rotated]) simp
  have 3: "\<forall>a\<in>set bm. \<forall>b\<in>set ?V. ?R a b"
  proof (intro ballI)
    fix a b assume a: "a \<in> set bm" and b: "b \<in> set ?V"
    from a obtain i where i: "i < length bm" "bm ! i = a" by (auto simp: in_set_conv_nth)
    then have "lexical_rank bm (hit_id a) = i" using lexical_rank_nth[OF db, of i] by simp
    moreover have "lexical_rank bm (hit_id b) = length bm"
      using b by (simp add: lexical_rank_absent)
    ultimately show "?R a b" using i by simp
  qed
  show ?thesis unfolding fusion_order_def sorted_wrt_append using 1 2 3 by simp
qed

lemma fusion_order_ids:
  "hit_id ` set (fusion_order bm vec) = hit_id ` set bm \<union> hit_id ` set vec"
  by (auto simp: fusion_order_def)

lemma fusion_order_distinct:
  "distinct (map hit_id bm) \<Longrightarrow> distinct (map hit_id vec) \<Longrightarrow>
     distinct (map hit_id (fusion_order bm vec))"
  by (auto simp: fusion_order_def distinct_map_filter) (metis imageI)

text \<open>
  Two different candidates with the same fused score differ in their lexical rank, so
  the third key of the order, the identifier, is never consulted.
\<close>

lemma fused_ties_differ_in_lexical_rank:
  assumes db: "distinct (map hit_id bm)" and dv: "distinct (map hit_id vec)"
    and c: "c \<in> hit_id ` set bm \<union> hit_id ` set vec"
    and c': "c' \<in> hit_id ` set bm \<union> hit_id ` set vec"
    and ne: "c \<noteq> c'"
    and tie: "fused_score bm vec c = fused_score bm vec c'"
  shows "lexical_rank bm c \<noteq> lexical_rank bm c'"
proof -
  have pos: "\<And>x xs. x \<in> hit_id ` set xs \<Longrightarrow> \<exists>i<length xs. x = hit_id (xs ! i)"
    by (auto simp: in_set_conv_nth)
  show ?thesis
  proof (cases "c \<in> hit_id ` set bm")
    case True
    then obtain i where i: "i < length bm" "c = hit_id (bm ! i)" using pos by blast
    then have ri: "lexical_rank bm c = i" using lexical_rank_nth[OF db] by simp
    show ?thesis
    proof (cases "c' \<in> hit_id ` set bm")
      case True
      then obtain j where j: "j < length bm" "c' = hit_id (bm ! j)" using pos by blast
      then have "lexical_rank bm c' = j" using lexical_rank_nth[OF db] by simp
      with ri i j ne show ?thesis by auto
    next
      case False
      then show ?thesis using ri i by (simp add: lexical_rank_absent)
    qed
  next
    case False
    note nc = False
    show ?thesis
    proof (cases "c' \<in> hit_id ` set bm")
      case True
      then obtain j where j: "j < length bm" "c' = hit_id (bm ! j)" using pos by blast
      then have "lexical_rank bm c' = j" using lexical_rank_nth[OF db] by simp
      with nc j show ?thesis by (simp add: lexical_rank_absent)
    next
      case False
      from nc c obtain i where i: "i < length vec" "c = hit_id (vec ! i)" using pos by blast
      from False c' obtain j where j: "j < length vec" "c' = hit_id (vec ! j)" using pos by blast
      have "contribution c vec = contribution c' vec"
        using tie nc False by (simp add: fused_score_def contribution_absent)
      then have "1 / (60 + real i + 1) = 1 / (60 + real j + 1)"
        using i j by (simp add: contribution_nth[OF dv])
      then have "i = j" by (simp add: field_simps)
      with i j ne show ?thesis by simp
    qed
  qed
qed

text \<open>
  C4. For lexical and dense results without repeated identifiers, \<open>mergeResults\<close>
  returns every candidate of either list once, with the sum of \<open>1 / (60 + rank + 1)\<close>
  over the lists that hold it as its score, in the order of the specification: by
  descending score, equal scores by lexical rank, and then by identifier. The sort is
  stable and \<open>scoreMap\<close> holds the lexical results first, in their order; two
  candidates that tie on the score never tie on the lexical rank.
\<close>

theorem rank_fusion_scores_and_order:
  assumes db: "distinct (map hit_id bm)" and dv: "distinct (map hit_id vec)"
  shows "set (map hit_id (mergeResults bm vec)) = set (map hit_id bm) \<union> set (map hit_id vec) \<and>
         distinct (map hit_id (mergeResults bm vec)) \<and>
         (\<forall>x\<in>set (mergeResults bm vec). score x = fused_score bm vec (hit_id x)) \<and>
         sorted_wrt (fused_before bm vec) (mergeResults bm vec)"
proof -
  let ?g = "\<lambda>r. - fused_score bm vec (hit_id r)"
  let ?S = "sort_key ?g (fusion_order bm vec)"
  let ?u = "\<lambda>r. r\<lparr>score := fused_score bm vec (hit_id r)\<rparr>"
  have form: "mergeResults bm vec = map ?u ?S" by (rule mergeResults_form[OF db dv])
  have ids: "map hit_id (map ?u ?S) = map hit_id ?S" by simp
  have "mset (map hit_id ?S) = mset (map hit_id (fusion_order bm vec))" by simp
  then have dS: "distinct (map hit_id ?S)"
    using fusion_order_distinct[OF db dv] by (metis mset_eq_imp_distinct_iff)
  have setS: "set (map hit_id ?S) = set (map hit_id bm) \<union> set (map hit_id vec)"
    using fusion_order_ids[of bm vec] by simp
  have sc: "\<forall>x\<in>set (map ?u ?S). score x = fused_score bm vec (hit_id x)" by auto
  have classes: "\<And>k. sorted_wrt (\<lambda>a b. lexical_rank bm (hit_id a) < lexical_rank bm (hit_id b))
                   (filter (\<lambda>y. ?g y = k) (fusion_order bm vec))"
  proof -
    fix k
    have "sorted_wrt (\<lambda>a b. fused_score bm vec (hit_id a) \<noteq> fused_score bm vec (hit_id b) \<or>
                          lexical_rank bm (hit_id a) < lexical_rank bm (hit_id b))
            (filter (\<lambda>y. ?g y = k) (fusion_order bm vec))"
      by (rule sorted_wrt_filter[OF fusion_order_sorted[OF db dv]])
    then show "sorted_wrt (\<lambda>a b. lexical_rank bm (hit_id a) < lexical_rank bm (hit_id b))
                 (filter (\<lambda>y. ?g y = k) (fusion_order bm vec))"
      by (rule sorted_wrt_mono_rel[rotated]) auto
  qed
  have "sorted_wrt (\<lambda>a b. ?g a < ?g b \<or> (?g a = ?g b \<and>
                       lexical_rank bm (hit_id a) < lexical_rank bm (hit_id b))) ?S"
    by (rule stable_sorted_wrt[OF classes])
  then have "sorted_wrt (\<lambda>a b. fused_before bm vec (?u a) (?u b)) ?S"
    by (rule sorted_wrt_mono_rel[rotated]) (auto simp: fused_before_def)
  then have ord: "sorted_wrt (fused_before bm vec) (map ?u ?S)"
    by (simp add: sorted_wrt_map)
  show ?thesis unfolding form using ids dS setS sc ord by (simp only: simp_thms)
qed

lemmas sample_defs = sample_a_def sample_b_def sample_c_def sample_bm25_def sample_vector_def

lemma mergeResults_sample:
  "mergeResults sample_bm25 sample_vector =
     [sample_a\<lparr>score := 1 / 61 + 1 / 62\<rparr>, sample_b\<lparr>score := 1 / 62 + 1 / 61\<rparr>,
      sample_c\<lparr>score := 1 / 63\<rparr>]"
  by (simp add: mergeResults_def sample_defs rrfScore_def)

text \<open>
  The sample: \<open>a\<close> and \<open>b\<close> swap their ranks in the two lists and tie on the score;
  \<open>a\<close>, first in the lexical list, comes first.
\<close>

theorem rank_fusion_scores_and_order_witness:
  "distinct (map hit_id sample_bm25) \<and> distinct (map hit_id sample_vector) \<and>
   map hit_id (mergeResults sample_bm25 sample_vector) = [''a'', ''b'', ''c''] \<and>
   distinct (map hit_id (mergeResults sample_bm25 sample_vector)) \<and>
   sorted_wrt (fused_before sample_bm25 sample_vector) (mergeResults sample_bm25 sample_vector)"
proof -
  have d1: "distinct (map hit_id sample_bm25)" by (simp add: sample_defs)
  have d2: "distinct (map hit_id sample_vector)" by (simp add: sample_defs)
  have ids: "map hit_id (mergeResults sample_bm25 sample_vector) = [''a'', ''b'', ''c'']"
    unfolding mergeResults_sample by (simp add: sample_defs)
  from rank_fusion_scores_and_order [OF d1 d2] d1 d2 ids show ?thesis by simp
qed


section \<open>Diversity selection\<close>

lemma textSimilarity_jaccard: "textSimilarity t1 t2 = jaccard t1 t2"
proof -
  have "set (filter (\<lambda>x. x \<in> set (splitWs (toLowerCase t2))) (splitWs (toLowerCase t1))) =
        word_set t1 \<inter> word_set t2"
    by (auto simp: word_set_def)
  then show ?thesis
    by (simp add: textSimilarity_def jaccard_def Let_def length_remdups_card_conv word_set_def
        Int_commute)
qed

lemma textSimilarity_nonneg: "0 \<le> textSimilarity t1 t2"
  by (simp add: textSimilarity_def Let_def)

lemma foldl_max_Max:
  fixes a :: real
  shows "foldl max a xs = Max (insert a (set xs))"
proof (induction xs arbitrary: a)
  case Nil then show ?case by simp
next
  case (Cons x xs)
  have "foldl max a (x # xs) = Max (insert (max a x) (set xs))" using Cons.IH by simp
  also have "\<dots> = Max (insert a (insert x (set xs)))"
  proof (cases "set xs = {}")
    case True
    then show ?thesis by simp
  next
    case False
    then show ?thesis by (simp add: max.assoc)
  qed
  finally show ?case by simp
qed

lemma maxSimilarity_Max:
  assumes "selected \<noteq> []"
  shows "maxSimilarity c selected =
           Max ((\<lambda>s. jaccard (chunk_text (payload c)) (chunk_text (payload s))) ` set selected)"
proof -
  let ?f = "\<lambda>s. textSimilarity (chunk_text (payload c)) (chunk_text (payload s))"
  have "maxSimilarity c selected = foldl max 0 (map ?f selected)"
    unfolding maxSimilarity_def by (simp add: foldl_map)
  also have "\<dots> = Max (insert 0 (?f ` set selected))" by (simp add: foldl_max_Max)
  also have "\<dots> = Max (?f ` set selected)"
  proof -
    have ne: "?f ` set selected \<noteq> {}" using assms by simp
    have "0 \<le> Max (?f ` set selected)"
    proof -
      obtain s where s: "s \<in> set selected" using assms by (cases selected) auto
      have "?f s \<le> Max (?f ` set selected)" using s by (intro Max_ge) auto
      with textSimilarity_nonneg[of "chunk_text (payload c)" "chunk_text (payload s)"]
      show ?thesis by linarith
    qed
    then show ?thesis using ne by (simp add: max_def)
  qed
  finally show ?thesis by (simp add: textSimilarity_jaccard)
qed

lemma mmrScore_objective:
  "selected \<noteq> [] \<Longrightarrow> mmrScore (1 / 2) selected c = mmr_objective selected c"
  by (simp add: mmrScore_def mmr_objective_def maxSimilarity_Max)

lemma scan_best_spec:
  assumes "case bS of None \<Rightarrow> pre = []
           | Some b \<Rightarrow> bI < length pre \<and> mmrScore lam sel (pre ! bI) = b \<and>
                       (\<forall>c\<in>set pre. mmrScore lam sel c \<le> b)"
    and "i = length pre" and "pre @ cs \<noteq> []"
  shows "scan_best lam sel cs i bI bS < length (pre @ cs) \<and>
         (\<forall>c\<in>set (pre @ cs). mmrScore lam sel c \<le>
            mmrScore lam sel ((pre @ cs) ! scan_best lam sel cs i bI bS))"
  using assms
proof (induction cs arbitrary: pre i bI bS)
  case Nil
  then show ?case by (cases bS) auto
next
  case (Cons c cs)
  let ?m = "mmrScore lam sel c"
  show ?case
  proof (cases "case bS of None \<Rightarrow> True | Some b \<Rightarrow> ?m > b")
    case True
    have inv: "case Some ?m of None \<Rightarrow> pre @ [c] = []
           | Some b \<Rightarrow> i < length (pre @ [c]) \<and> mmrScore lam sel ((pre @ [c]) ! i) = b \<and>
                       (\<forall>x\<in>set (pre @ [c]). mmrScore lam sel x \<le> b)"
      using Cons.prems True by (cases bS) (auto simp: nth_append)
    from Cons.IH[OF inv, of "Suc i"] Cons.prems(2) True
    show ?thesis by (simp add: Let_def)
  next
    case False
    then obtain b where b: "bS = Some b" "\<not> ?m > b" by (cases bS) auto
    have inv: "case bS of None \<Rightarrow> pre @ [c] = []
           | Some b \<Rightarrow> bI < length (pre @ [c]) \<and> mmrScore lam sel ((pre @ [c]) ! bI) = b \<and>
                       (\<forall>x\<in>set (pre @ [c]). mmrScore lam sel x \<le> b)"
      using Cons.prems b by (auto simp: nth_append)
    from Cons.IH[OF inv, of "Suc i"] Cons.prems(2) False
    show ?thesis by (simp add: Let_def)
  qed
qed

lemma scan_best_less:
  "remaining \<noteq> [] \<Longrightarrow> scan_best lam sel remaining 0 0 None < length remaining"
  using scan_best_spec[where bS = None and pre = "[]" and i = 0 and cs = remaining and bI = 0]
  by simp

lemma scan_best_max:
  "remaining \<noteq> [] \<Longrightarrow> c \<in> set remaining \<Longrightarrow>
     mmrScore lam sel c \<le> mmrScore lam sel (remaining ! scan_best lam sel remaining 0 0 None)"
  using scan_best_spec[where bS = None and pre = "[]" and i = 0 and cs = remaining and bI = 0]
  by simp

lemma mset_remove_nth:
  "b < length xs \<Longrightarrow> add_mset (xs ! b) (mset (take b xs @ drop (Suc b) xs)) = mset xs"
proof -
  assume b: "b < length xs"
  have "xs = take b xs @ xs ! b # drop (Suc b) xs" using b by (rule id_take_nth_drop)
  then have "mset xs = mset (take b xs @ xs ! b # drop (Suc b) xs)" by simp
  then show ?thesis by simp
qed

lemma mmr_loop_spec:
  "take (length sel) (mmr_loop lam k sel rem) = sel \<and>
   length (mmr_loop lam k sel rem) =
     (if length sel < k then min k (length sel + length rem) else length sel) \<and>
   (\<forall>n. length sel \<le> n \<and> n < length (mmr_loop lam k sel rem) \<longrightarrow>
        loop_step lam (mset sel + mset rem) (mmr_loop lam k sel rem) n)"
proof (induction lam k sel rem rule: mmr_loop.induct)
  case (1 lam k sel rem)
  show ?case
  proof (cases "length sel < k \<and> rem \<noteq> []")
    case False
    then have "mmr_loop lam k sel rem = sel" by (simp add: mmr_loop.simps)
    with False show ?thesis by auto
  next
    case True
    define b where "b = scan_best lam sel rem 0 0 None"
    define x where "x = rem ! b"
    define rem' where "rem' = take b rem @ drop (Suc b) rem"
    define out where "out = mmr_loop lam k (sel @ [x]) rem'"
    have bl: "b < length rem" unfolding b_def using True by (simp add: scan_best_less)
    have out: "mmr_loop lam k sel rem = out"
      using True unfolding out_def rem'_def x_def b_def
      by (subst mmr_loop.simps) (simp add: Let_def)
    have IH: "take (length (sel @ [x])) out = sel @ [x] \<and>
       length out = (if length (sel @ [x]) < k then min k (length (sel @ [x]) + length rem')
                     else length (sel @ [x])) \<and>
       (\<forall>n. length (sel @ [x]) \<le> n \<and> n < length out \<longrightarrow>
            loop_step lam (mset (sel @ [x]) + mset rem') out n)"
      using "1.IH"[OF True b_def] unfolding out_def rem'_def x_def by simp
    have lr: "length rem' = length rem - 1" using bl unfolding rem'_def by simp
    have U: "mset (sel @ [x]) + mset rem' = mset sel + mset rem"
      using mset_remove_nth[OF bl] unfolding rem'_def x_def by simp
    have len: "length out = min k (length sel + length rem)"
      using IH True lr bl by (auto simp: min_def)
    have tk1: "take (Suc (length sel)) out = sel @ [x]" using IH by simp
    have tk: "take (length sel) out = sel"
    proof -
      have "take (length sel) out = take (length sel) (take (Suc (length sel)) out)"
        by (simp add: min_def)
      then show ?thesis using tk1 by simp
    qed
    have nth: "out ! length sel = x"
    proof -
      have "length sel < length out" using len True by (cases rem) auto
      then have "out ! length sel = take (Suc (length sel)) out ! length sel" by simp
      then show ?thesis using tk1 by simp
    qed
    have first: "loop_step lam (mset sel + mset rem) out (length sel)"
      unfolding loop_step_def tk nth
    proof (intro conjI ballI)
      show "x \<in># mset sel + mset rem - mset sel" using bl unfolding x_def by simp
      fix c assume "c \<in># mset sel + mset rem - mset sel"
      then have "c \<in> set rem" by simp
      then show "mmrScore lam sel c \<le> mmrScore lam sel x"
        unfolding x_def b_def using True by (simp add: scan_best_max)
    qed
    have rest: "\<forall>n. length sel \<le> n \<and> n < length out \<longrightarrow>
                  loop_step lam (mset sel + mset rem) out n"
    proof (intro allI impI)
      fix n assume n: "length sel \<le> n \<and> n < length out"
      show "loop_step lam (mset sel + mset rem) out n"
      proof (cases "n = length sel")
        case True then show ?thesis using first by simp
      next
        case False
        with n have "length (sel @ [x]) \<le> n \<and> n < length out" by simp
        with IH U show ?thesis by metis
      qed
    qed
    show ?thesis unfolding out using tk len rest True by simp
  qed
qed

text \<open>
  C7. For a limit \<open>k\<close> of at least one (\<open>searchDocuments\<close> passes 3), \<open>applyMMR\<close>
  with \<open>lambda = 0.5\<close> returns the candidates as they are when there are at most
  \<open>k\<close>; otherwise it returns \<open>k\<close> of them, the first is the top candidate, and every
  later one is a greedy choice: a remaining candidate that maximises half its fused score
  minus half its largest Jaccard similarity to the chunks selected before it.
\<close>

theorem mmr_greedy_sequence:
  assumes "0 < k"
  shows "(length results \<le> k \<longrightarrow> applyMMR results k (1 / 2) = results) \<and>
         (k < length results \<longrightarrow>
            length (applyMMR results k (1 / 2)) = k \<and>
            applyMMR results k (1 / 2) ! 0 = results ! 0 \<and>
            (\<forall>n. 0 < n \<and> n < k \<longrightarrow> greedy_choice results (applyMMR results k (1 / 2)) n))"
proof (intro conjI impI)
  assume "length results \<le> k"
  then show "applyMMR results k (1 / 2) = results" by (simp add: applyMMR_def)
next
  assume gt: "k < length results"
  then obtain r rs where res: "results = r # rs" by (cases results) auto
  define out where "out = mmr_loop (1 / 2) k [r] rs"
  have out: "applyMMR results k (1 / 2) = out"
    using gt res by (simp add: applyMMR_def out_def)
  have spec: "take (length [r]) out = [r] \<and>
     length out = (if length [r] < k then min k (length [r] + length rs) else length [r]) \<and>
     (\<forall>n. length [r] \<le> n \<and> n < length out \<longrightarrow> loop_step (1 / 2) (mset [r] + mset rs) out n)"
    unfolding out_def by (rule mmr_loop_spec)
  have len: "length out = k" using spec gt res assms by (auto simp: min_def)
  have t1: "take 1 out = [r]" using spec by simp
  have o0: "out ! 0 = r" using t1 by (cases out) auto
  show "length (applyMMR results k (1 / 2)) = k" using out len by simp
  show "applyMMR results k (1 / 2) ! 0 = results ! 0" using out o0 res by simp
  show "\<forall>n. 0 < n \<and> n < k \<longrightarrow> greedy_choice results (applyMMR results k (1 / 2)) n"
  proof (intro allI impI)
    fix n assume n: "0 < n \<and> n < k"
    then have "loop_step (1 / 2) (mset [r] + mset rs) out n" using spec len by simp
    moreover have ne: "take n out \<noteq> []" using n len by auto
    ultimately have "greedy_choice results out n"
      unfolding greedy_choice_def loop_step_def res
      by (simp add: mmrScore_objective[OF ne])
    then show "greedy_choice results (applyMMR results k (1 / 2)) n"
      by (simp only: out)
  qed
qed

text \<open>
  With a limit of 0, which no caller passes, the seed is still selected: the loop adds
  nothing to it.
\<close>

lemma applyMMR_limit_zero: "applyMMR (r # rs) 0 lam = [r]"
  by (simp add: applyMMR_def mmr_loop.simps)

lemma sim_ba: "textSimilarity ''late policy grace'' ''Late policy grace period'' = 3 / 4"
  by (simp add: textSimilarity_def toLowerCase_def toLowerCaseChar_def splitWs.simps isSpace_def)

lemma sim_ca: "textSimilarity ''parking garage hours'' ''Late policy grace period'' = 0"
  by (simp add: textSimilarity_def toLowerCase_def toLowerCaseChar_def splitWs.simps isSpace_def)

lemma applyMMR_sample:
  "applyMMR [sample_a, sample_b, sample_c] 2 (1 / 2) = [sample_a, sample_c]"
  by (simp add: applyMMR_def mmr_loop.simps mmrScore_def maxSimilarity_def sample_defs
      sim_ba sim_ca)

text \<open>
  The sample: \<open>b\<close> has the second score and shares three of four words with \<open>a\<close>;
  the second choice is \<open>c\<close>.
\<close>

theorem mmr_greedy_sequence_witness:
  "(0::nat) < 2 \<and>
   applyMMR [sample_a, sample_b, sample_c] 2 (1 / 2) = [sample_a, sample_c] \<and>
   greedy_choice [sample_a, sample_b, sample_c] [sample_a, sample_c] 1"
proof -
  have k: "(0::nat) < 2" by simp
  from mmr_greedy_sequence [OF k, of "[sample_a, sample_b, sample_c]"]
  have "greedy_choice [sample_a, sample_b, sample_c]
          (applyMMR [sample_a, sample_b, sample_c] 2 (1 / 2)) 1"
    by simp
  then show ?thesis by (simp add: applyMMR_sample)
qed


section \<open>Degraded retrieval\<close>

lemma map_set_keys: "fst ` set (map_set k v m) = insert k (fst ` set m)"
proof (induction m)
  case Nil then show ?case by simp
next
  case (Cons e m)
  obtain c x where e: "e = (c, x)" by (cases e)
  show ?case using Cons.IH by (cases "k = c") (auto simp: e)
qed

lemma add_bm25_keys: "fst ` set (add_bm25 m rs k) = fst ` set m \<union> hit_id ` set rs"
  by (induction rs arbitrary: m k) (auto simp: map_set_keys)

lemma add_vector_keys: "fst ` set (add_vector m rs k) = fst ` set m \<union> hit_id ` set rs"
  by (induction rs arbitrary: m k) (auto simp: map_set_keys split: option.splits)

lemma map_set_own:
  "(\<forall>(c, s, r)\<in>set m. hit_id r = c) \<Longrightarrow> hit_id (snd v) = k \<Longrightarrow>
     (\<forall>(c, s, r)\<in>set (map_set k v m). hit_id r = c)"
proof (induction m)
  case Nil then show ?case by (cases v) auto
next
  case (Cons e m)
  obtain c x where e: "e = (c, x)" by (cases e)
  show ?case using Cons by (cases "k = c"; cases v) (auto simp: e)
qed

lemma add_bm25_own:
  "(\<forall>(c, s, r)\<in>set m. hit_id r = c) \<Longrightarrow> (\<forall>(c, s, r)\<in>set (add_bm25 m rs k). hit_id r = c)"
proof (induction rs arbitrary: m k)
  case Nil then show ?case by simp
next
  case (Cons r rs)
  have "\<forall>(c, s, r)\<in>set (map_set (hit_id r) (rrfScore k, r) m). hit_id r = c"
    by (rule map_set_own[OF Cons.prems]) simp
  from Cons.IH[OF this] show ?case by simp
qed

lemma add_vector_own:
  "(\<forall>(c, s, r)\<in>set m. hit_id r = c) \<Longrightarrow> (\<forall>(c, s, r)\<in>set (add_vector m rs k). hit_id r = c)"
proof (induction rs arbitrary: m k)
  case Nil then show ?case by simp
next
  case (Cons r rs)
  show ?case
  proof (cases "map_of m (hit_id r)")
    case None
    have "\<forall>(c, s, r)\<in>set (map_set (hit_id r) (rrfScore k, r) m). hit_id r = c"
      by (rule map_set_own[OF Cons.prems]) simp
    from Cons.IH[OF this] None show ?thesis by simp
  next
    case (Some v)
    obtain s r0 where v: "v = (s, r0)" by (cases v)
    have "(hit_id r, (s, r0)) \<in> set m" using Some v by (simp add: map_of_SomeD)
    then have "hit_id r0 = hit_id r" using Cons.prems by auto
    then have "\<forall>(c, s', r')\<in>set (map_set (hit_id r) (s + rrfScore k, r0) m). hit_id r' = c"
      by (intro map_set_own[OF Cons.prems]) simp
    from Cons.IH[OF this] Some v show ?thesis by simp
  qed
qed

lemma mergeResults_ids:
  "hit_id ` set (mergeResults bm vec) = hit_id ` set bm \<union> hit_id ` set vec"
proof -
  let ?M = "add_vector (add_bm25 [] bm 0) vec 0"
  have own: "\<forall>(c, s, r)\<in>set ?M. hit_id r = c"
    by (rule add_vector_own[OF add_bm25_own]) simp
  have keys: "fst ` set ?M = hit_id ` set bm \<union> hit_id ` set vec"
    by (simp add: add_vector_keys add_bm25_keys)
  have "hit_id ` set (mergeResults bm vec) = (\<lambda>(c, s, r). hit_id (r\<lparr>score := s\<rparr>)) ` set ?M"
    by (simp add: mergeResults_def image_image case_prod_unfold)
  also have "\<dots> = fst ` set ?M"
    using own by (intro image_cong refl) auto
  finally show ?thesis using keys by simp
qed

lemma mmr_loop_subset: "set (mmr_loop lam k sel rem) \<subseteq> set sel \<union> set rem"
proof (induction lam k sel rem rule: mmr_loop.induct)
  case (1 lam k sel rem)
  show ?case
  proof (cases "length sel < k \<and> rem \<noteq> []")
    case False
    then have "mmr_loop lam k sel rem = sel" by (subst mmr_loop.simps) auto
    then show ?thesis by simp
  next
    case True
    define b where "b = scan_best lam sel rem 0 0 None"
    have "set (mmr_loop lam k (sel @ [rem ! b]) (take b rem @ drop (Suc b) rem)) \<subseteq>
          set (sel @ [rem ! b]) \<union> set (take b rem @ drop (Suc b) rem)"
      using "1.IH"[OF True b_def] .
    moreover have "rem ! b \<in> set rem" using True unfolding b_def by (simp add: scan_best_less)
    moreover have "set (take b rem) \<subseteq> set rem" "set (drop (Suc b) rem) \<subseteq> set rem"
      by (auto dest: in_set_takeD in_set_dropD)
    moreover have "mmr_loop lam k sel rem =
                   mmr_loop lam k (sel @ [rem ! b]) (take b rem @ drop (Suc b) rem)"
      using True unfolding b_def by (subst mmr_loop.simps) (simp add: Let_def)
    ultimately show ?thesis by auto
  qed
qed

lemma applyMMR_subset: "set (applyMMR rs k lam) \<subseteq> set rs"
proof (cases "length rs \<le> k")
  case True then show ?thesis by (simp add: applyMMR_def)
next
  case False
  then obtain r rs' where "rs = r # rs'" by (cases rs) auto
  with False mmr_loop_subset[of lam k "[r]" rs'] show ?thesis by (simp add: applyMMR_def)
qed

lemma applyMMR_nonempty: "rs \<noteq> [] \<Longrightarrow> 0 < k \<Longrightarrow> applyMMR rs k lam \<noteq> []"
proof (cases "length rs \<le> k")
  case True
  assume "rs \<noteq> []" then show ?thesis using True by (simp add: applyMMR_def)
next
  case False
  assume "0 < k"
  have "take (length [hd rs]) (mmr_loop lam k [hd rs] (tl rs)) = [hd rs]"
    using mmr_loop_spec[of "[hd rs]" lam k "tl rs"] by blast
  then have "mmr_loop lam k [hd rs] (tl rs) \<noteq> []" by auto
  with False show ?thesis by (simp add: applyMMR_def)
qed

lemma vectorSearch_fails: "dense_fails env query \<Longrightarrow> vectorSearch env query 8 = []"
  by (auto simp: dense_fails_def vectorSearch_def generateEmbedding_def)

lemma searchDocuments_miss:
  "getCachedResults env query = None \<Longrightarrow>
     searchDocuments env query k =
       applyMMR (take 8 (mergeResults (bm25Search env query 8) (vectorSearch env query 8))) k (1 / 2)"
  by (simp add: searchDocuments_def Let_def split: outcome.splits)

lemma mergeResults_nonempty: "bm \<noteq> [] \<Longrightarrow> mergeResults bm vec \<noteq> []"
proof
  assume "bm \<noteq> []" and "mergeResults bm vec = []"
  then have "hit_id ` set bm \<union> hit_id ` set vec = {}"
    using mergeResults_ids[of bm vec] by simp
  with \<open>bm \<noteq> []\<close> show False by simp
qed

lemma mergeResults_empty: "mergeResults [] [] = []"
  by (simp add: mergeResults_def)

text \<open>
  C6. On a miss of the \<open>query:\<close> cache: when the dense branch fails,
  \<open>vectorSearch\<close> returns the empty list and \<open>searchDocuments\<close> returns the
  selection from the fused lexical results alone, every result is a lexical result, and
  with a limit of at least one some result is returned when the lexical branch found
  one. When both branches return nothing, \<open>searchDocuments\<close> returns the empty list,
  and \<open>getKnowledgeAnswer\<close>, on a miss of its own cache, returns the "no
  information" reply with no citations.
\<close>

theorem retrieval_degrades:
  assumes miss: "getCachedResults env query = None"
  shows "(dense_fails env query \<longrightarrow>
            vectorSearch env query 8 = [] \<and>
            searchDocuments env query k =
              applyMMR (take 8 (mergeResults (bm25Search env query 8) [])) k (1 / 2) \<and>
            hit_id ` set (searchDocuments env query k) \<subseteq> hit_id ` set (bm25Search env query 8) \<and>
            (0 < k \<and> bm25Search env query 8 \<noteq> [] \<longrightarrow> searchDocuments env query k \<noteq> [])) \<and>
         (bm25Search env query 8 = [] \<and> vectorSearch env query 8 = [] \<longrightarrow>
            searchDocuments env query k = [] \<and>
            (knowledge_get env (''knowledge:'' @ take 100 (base64 env query)) = Returns None \<longrightarrow>
               getKnowledgeAnswer env query = no_information))"
proof (intro conjI impI)
  assume d: "dense_fails env query"
  show v: "vectorSearch env query 8 = []" by (rule vectorSearch_fails[OF d])
  show s: "searchDocuments env query k =
      applyMMR (take 8 (mergeResults (bm25Search env query 8) [])) k (1 / 2)"
    using searchDocuments_miss[OF miss] v by simp
  have "set (searchDocuments env query k) \<subseteq> set (mergeResults (bm25Search env query 8) [])"
    unfolding s using applyMMR_subset set_take_subset by fastforce
  then have "hit_id ` set (searchDocuments env query k) \<subseteq>
             hit_id ` set (mergeResults (bm25Search env query 8) [])" by blast
  then show "hit_id ` set (searchDocuments env query k) \<subseteq> hit_id ` set (bm25Search env query 8)"
    by (simp add: mergeResults_ids)
  assume k: "0 < k \<and> bm25Search env query 8 \<noteq> []"
  then have "take 8 (mergeResults (bm25Search env query 8) []) \<noteq> []"
    using mergeResults_nonempty[of "bm25Search env query 8" "[]"] by simp
  then show "searchDocuments env query k \<noteq> []"
    unfolding s using k by (intro applyMMR_nonempty) auto
next
  assume e: "bm25Search env query 8 = [] \<and> vectorSearch env query 8 = []"
  show "searchDocuments env query k = []"
    using searchDocuments_miss[OF miss] e by (simp add: mergeResults_empty applyMMR_def)
next
  assume e: "bm25Search env query 8 = [] \<and> vectorSearch env query 8 = []"
    and g: "knowledge_get env (''knowledge:'' @ take 100 (base64 env query)) = Returns None"
  have "searchDocuments env query 3 = []"
    using searchDocuments_miss[OF miss] e by (simp add: mergeResults_empty applyMMR_def)
  with g show "getKnowledgeAnswer env query = no_information"
    by (simp add: getKnowledgeAnswer_def Let_def)
qed

lemma sample_miss: "getCachedResults sample_env q = None"
  by (simp add: getCachedResults_def sample_env_def)

lemma sample_dense_fails: "dense_fails sample_env q"
  by (simp add: dense_fails_def getCachedEmbedding_def sample_env_def)

lemma sample_bm25:
  "bm25Search sample_env q 8 =
     [\<lparr>hit_id = ''p-1'', score = 3 / 2,
       payload = \<lparr>chunk_text = ''Patients arriving more than 15 minutes late are rescheduled.'',
                  doc_id = ''pol-1'', chunk_index = 0\<rparr>\<rparr>]"
  by (simp add: bm25Search_def sample_env_def hit_of_doc_def enumerate_eq_zip)

lemma sample_search:
  "searchDocuments sample_env q 3 =
     [\<lparr>hit_id = ''p-1'', score = 1 / 61,
       payload = \<lparr>chunk_text = ''Patients arriving more than 15 minutes late are rescheduled.'',
                  doc_id = ''pol-1'', chunk_index = 0\<rparr>\<rparr>]"
  unfolding searchDocuments_miss[OF sample_miss] vectorSearch_fails[OF sample_dense_fails] sample_bm25
  by (simp add: mergeResults_def applyMMR_def rrfScore_def)

theorem retrieval_degrades_witness:
  "getCachedResults sample_env ''what is the late policy?'' = None \<and>
   dense_fails sample_env ''what is the late policy?'' \<and>
   0 < (3::nat) \<and> bm25Search sample_env ''what is the late policy?'' 8 \<noteq> [] \<and>
   vectorSearch sample_env ''what is the late policy?'' 8 = [] \<and>
   searchDocuments sample_env ''what is the late policy?'' 3 \<noteq> []"
proof -
  let ?q = "''what is the late policy?''"
  have b: "bm25Search sample_env ?q 8 \<noteq> []" by (simp add: sample_bm25)
  from retrieval_degrades [OF sample_miss, of ?q 3] sample_dense_fails [of ?q]
  have "vectorSearch sample_env ?q 8 = [] \<and>
        (0 < (3::nat) \<and> bm25Search sample_env ?q 8 \<noteq> [] \<longrightarrow>
           searchDocuments sample_env ?q 3 \<noteq> [])"
    by blast
  with b sample_miss [of ?q] sample_dense_fails [of ?q] show ?thesis by simp
qed

section \<open>Cache writes\<close>

lemma generateEmbedding_result:
  "generateEmbedding env t =
     (case getCachedEmbedding env t of Some cached \<Rightarrow> Returns cached
      | None \<Rightarrow> openai_embed env t)"
  by (simp add: generateEmbedding_def split: option.splits outcome.splits)

lemma searchDocuments_result:
  "searchDocuments env q k =
     (case getCachedResults env q of
        Some cached \<Rightarrow> cached
      | None \<Rightarrow>
          applyMMR (take 8 (mergeResults (bm25Search env q 8) (vectorSearch env q 8))) k (1 / 2))"
  by (simp add: searchDocuments_def Let_def split: option.splits outcome.splits)

lemma vectorSearch_writes:
  "vectorSearch (env\<lparr>query_setex := f\<rparr>) q n = vectorSearch env q n"
  "vectorSearch (env\<lparr>knowledge_setex := g\<rparr>) q n = vectorSearch env q n"
  by (simp_all add: vectorSearch_def generateEmbedding_result getCachedEmbedding_def
      cong: option.case_cong outcome.case_cong)

lemma bm25Search_writes:
  "bm25Search (env\<lparr>query_setex := f\<rparr>) q n = bm25Search env q n"
  "bm25Search (env\<lparr>knowledge_setex := g\<rparr>) q n = bm25Search env q n"
  by (simp_all add: bm25Search_def cong: if_cong outcome.case_cong)

lemma getCachedResults_writes:
  "getCachedResults (env\<lparr>query_setex := f\<rparr>) q = getCachedResults env q"
  "getCachedResults (env\<lparr>knowledge_setex := g\<rparr>) q = getCachedResults env q"
  by (simp_all add: getCachedResults_def)

lemma searchDocuments_query_write:
  "searchDocuments (env\<lparr>query_setex := f\<rparr>) q k = searchDocuments env q k"
  by (simp add: searchDocuments_result vectorSearch_writes bm25Search_writes
      getCachedResults_writes cong: option.case_cong)

lemma searchDocuments_knowledge_write:
  "searchDocuments (env\<lparr>knowledge_setex := f\<rparr>) q k = searchDocuments env q k"
  by (simp add: searchDocuments_result vectorSearch_writes bm25Search_writes
      getCachedResults_writes cong: option.case_cong)

lemma knowledge_write_failure:
  assumes "knowledge_get env (''knowledge:'' @ take 100 (base64 env message)) = Returns None"
    and "searchDocuments env message 3 \<noteq> []"
  shows "getKnowledgeAnswer (env\<lparr>knowledge_setex := (\<lambda>k a. Throws e)\<rparr>) message = retrieval_error"
  using assms by (simp add: getKnowledgeAnswer_def searchDocuments_knowledge_write Let_def)

lemma knowledge_write_success:
  assumes "knowledge_get env (''knowledge:'' @ take 100 (base64 env message)) = Returns None"
    and "searchDocuments env message 3 \<noteq> []"
  shows "citations (getKnowledgeAnswer (env\<lparr>knowledge_setex := (\<lambda>k a. Returns ())\<rparr>) message) \<noteq> []"
  using assms
  by (cases "searchDocuments env message 3")
    (simp_all add: getKnowledgeAnswer_def searchDocuments_knowledge_write Let_def
      build_citations_def)

text \<open>The sample chunk is one sentence.\<close>

lemma sample_sentences:
  "splitIntoSentences ''Patients arriving more than 15 minutes late are rescheduled.'' =
     [''Patients arriving more than 15 minutes late are rescheduled.'']"
  by (simp add: splitIntoSentences_def header_length_def isSpace_def isTerminal_def
      isCapital_def ends_sentence_def unique_def trim_def)

lemma sample_reply:
  "getKnowledgeAnswer sample_env ''what is the late policy?'' = sample_answer"
proof -
  have g: "knowledge_get sample_env k = Returns None" for k by (simp add: sample_env_def)
  have w: "knowledge_setex sample_env k a = Returns ()" for k a by (simp add: sample_env_def)
  have f: "findBestSentence sample_env q
             ''Patients arriving more than 15 minutes late are rescheduled.'' =
           ''Patients arriving more than 15 minutes late are rescheduled.''" for q
    by (simp add: findBestSentence_def sample_sentences)
  have r: "round2 (1 / 61) = 2 / 100" by (simp add: round2_def)
  show ?thesis
    unfolding getKnowledgeAnswer_def Let_def g sample_search w
    by (simp add: build_citations_def sample_answer_def r f enumerate_eq_zip)
qed

text \<open>
  C1 fails on the code for the \<open>knowledge:\<close> cache. In the sample environment the
  query is answered with one citation; when only the write of the answer to the cache
  throws, \<open>getKnowledgeAnswer\<close> returns the error reply instead. The write to the
  \<open>query:\<close> cache is swallowed: \<open>searchDocuments\<close> returns the same list.
\<close>

theorem knowledge_cache_write_failure:
  "getKnowledgeAnswer sample_env ''what is the late policy?'' = sample_answer \<and>
   getKnowledgeAnswer (sample_env\<lparr>knowledge_setex := (\<lambda>k a. Throws ''Connection is closed.'')\<rparr>)
     ''what is the late policy?'' = retrieval_error \<and>
   retrieval_error \<noteq> sample_answer \<and>
   searchDocuments (sample_env\<lparr>query_setex := (\<lambda>k r. Throws ''Connection is closed.'')\<rparr>)
     ''what is the late policy?'' 3 = searchDocuments sample_env ''what is the late policy?'' 3"
proof -
  have g: "knowledge_get sample_env k = Returns None" for k by (simp add: sample_env_def)
  have s: "searchDocuments sample_env ''what is the late policy?'' 3 \<noteq> []"
    by (simp add: sample_search)
  have "retrieval_error \<noteq> sample_answer" by (simp add: retrieval_error_def sample_answer_def)
  with sample_reply knowledge_write_failure [OF g s] searchDocuments_query_write
  show ?thesis by simp
qed

section \<open>The semantic component of the sentence score\<close>

lemma squares_nonneg: "0 \<le> (\<Sum>a\<leftarrow>v. a * a :: real)"
  by (induction v) auto

lemma squares_zero:
  "(\<Sum>a\<leftarrow>v. a * a) = (0::real) \<longleftrightarrow> (\<forall>a\<in>set v. a = 0)"
proof (induction v)
  case Nil
  show ?case by simp
next
  case (Cons x v)
  have "x * x + (\<Sum>a\<leftarrow>v. a * a) = 0 \<longleftrightarrow> x * x = 0 \<and> (\<Sum>a\<leftarrow>v. a * a) = 0"
    using squares_nonneg[of v] by (intro add_nonneg_eq_0_iff) auto
  with Cons show ?case by simp
qed

lemma sum_list_zeros: "\<forall>x\<in>set xs. f x = (0::real) \<Longrightarrow> sum_list (map f xs) = 0"
  by (induction xs) auto

lemma zero_norm_dot:
  assumes "(\<Sum>a\<leftarrow>vecA. a * a) = (0::real) \<or> (\<Sum>b\<leftarrow>vecB. b * b) = (0::real)"
  shows "(\<Sum>(a, b)\<leftarrow>zip vecA vecB. a * b) = 0"
proof (rule sum_list_zeros)
  show "\<forall>x\<in>set (zip vecA vecB). (case x of (a, b) \<Rightarrow> a * b) = 0"
    using assms by (auto simp: squares_zero dest: set_zip_leftD set_zip_rightD)
qed

text \<open>
  \<open>cosineSimilarity\<close> is \<open>NaN\<close> exactly when the vectors have the same length and
  one of them is zero everywhere; the dot product is then 0, so the quotient of the
  source is \<open>0 / 0\<close> and not an infinity.
\<close>

lemma cosineSimilarity_NaN:
  "cosineSimilarity vecA vecB = None \<longleftrightarrow>
     length vecA = length vecB \<and>
     ((\<forall>a\<in>set vecA. a = 0) \<or> (\<forall>b\<in>set vecB. b = 0))"
  by (auto simp: cosineSimilarity_def Let_def squares_zero)


section \<open>The lexical component of the sentence score\<close>

lemma foldl_idf_zero:
  "foldl (\<lambda>acc x. if P x then acc + ln 1 * f x else acc) (a::real) xs = a"
  by (induction xs) auto

lemma calculateBM25Score_zero: "calculateBM25Score query sentence = 0"
  unfolding calculateBM25Score_def Let_def by (rule foldl_idf_zero)

lemma late_in_query: "''late'' \<in> set (splitWs (toLowerCase ''late policy''))"
  by (simp add: toLowerCase_def toLowerCaseChar_def splitWs.simps isSpace_def)

lemma late_in_sentence: "''late'' \<in> set (splitWs (toLowerCase ''The late policy applies.''))"
  by (simp add: toLowerCase_def toLowerCaseChar_def splitWs.simps isSpace_def)

lemma cosine_sample: "cosineSimilarity [1, 0] [1, 0] = Some 1"
  by (simp add: cosineSimilarity_def)

text \<open>
  C2 fails on the code: \<open>idf\<close> is \<open>Math.log(1)\<close>, so every term adds
  \<open>0 * tf\<close> and \<open>calculateBM25Score\<close> is 0 for every query and sentence
  (lemma \<open>calculateBM25Score_zero\<close>). The query and the sentence below share the
  term "late"; the lexical component is 0 and the combined score is 0.7 times the
  cosine.
\<close>

theorem sentence_bm25_is_zero:
  "''late'' \<in> set (splitWs (toLowerCase ''late policy'')) \<and>
   ''late'' \<in> set (splitWs (toLowerCase ''The late policy applies.'')) \<and>
   calculateBM25Score ''late policy'' ''The late policy applies.'' = 0 \<and>
   combinedScore [1, 0] ''late policy'' ''The late policy applies.'' [1, 0] = Some (7 / 10)"
  using late_in_query late_in_sentence
  by (simp add: calculateBM25Score_zero combinedScore_def cosine_sample)


section \<open>Scheduling and rescheduling\<close>

lemma redis_call_frame:
  "appts (snd (redis_call w)) = appts w"
  "appts_all (snd (redis_call w)) = appts_all w"
  "sessions (snd (redis_call w)) = sessions w"
  "lastApptNumber (snd (redis_call w)) = lastApptNumber w"
  "now (snd (redis_call w)) = now w"
  by (simp_all add: redis_call_def split: list.splits)

lemma redis_call_pair: "redis_call w = (f, w') \<Longrightarrow> w' = snd (redis_call w)"
  by simp

lemma schedule_stores:
  assumes "scheduleAppointment p name slot loc w0 = Some (Ok a, w1)"
  shows "appts w1 (appt_id a) = Some a"
  using assms
  by (auto simp: scheduleAppointment_def Let_def redis_call_frame
      split: if_splits option.splits prod.splits outcome.splits
      dest!: redis_call_pair)

lemma reschedule_stores:
  assumes "appts w1 apptId = Some a"
    and "rescheduleAppointment p apptId t' w1 = (Ok a', w2)"
  shows "\<exists>d'. date_parse p t' = Some d' \<and>
           a' = a\<lparr>normalized_slot_iso := toISOString p d',
                   updated_at := Some (toISOString p (int (now w1)))\<rparr> \<and>
           appts w2 apptId = Some a'"
  using assms
  by (auto simp: rescheduleAppointment_def Let_def redis_call_frame
      split: if_splits option.splits prod.splits
      dest!: redis_call_pair)

lemma served_step:
  assumes "served (Suc n) w"
  shows "redis_call w = (None, snd (redis_call w))"
    and "served n (snd (redis_call w))"
  using assms by (cases "faults w"; simp add: served_def redis_call_def)+

lemma served_faults: "faults w' = faults w \<Longrightarrow> served n w' = served n w"
  by (simp add: served_def)

text \<open>
  A valid time, an appointment that is stored and two commands that Redis serves are
  all \<open>rescheduleAppointment\<close> needs: it answers \<open>ok: true\<close> with the appointment moved,
  stores it under the same key and leaves every other key as it was.
\<close>

lemma reschedule_succeeds:
  assumes st: "appts w1 apptId = Some a"
    and d: "date_parse p t' = Some d'"
    and sv: "served (Suc (Suc n)) w1"
  shows "\<exists>w2. rescheduleAppointment p apptId t' w1 =
                (Ok (a\<lparr>normalized_slot_iso := toISOString p d',
                        updated_at := Some (toISOString p (int (now w1)))\<rparr>), w2) \<and>
              appts w2 = (appts w1)(apptId \<mapsto>
                 a\<lparr>normalized_slot_iso := toISOString p d',
                    updated_at := Some (toISOString p (int (now w1)))\<rparr>) \<and>
              served n w2"
proof -
  define wa where "wa = snd (redis_call w1)"
  define wb where "wb = snd (redis_call wa)"
  have c1: "redis_call w1 = (None, wa)" and s1: "served (Suc n) wa"
    using served_step[OF sv] by (simp_all add: wa_def)
  have c2: "redis_call wa = (None, wb)" and s2: "served n wb"
    using served_step[OF s1] by (simp_all add: wb_def)
  have fa: "appts wa = appts w1" "now wa = now w1"
    by (simp_all add: wa_def redis_call_frame)
  have fb: "appts wb = appts wa" by (simp add: wb_def redis_call_frame)
  show ?thesis
    using st d s2
    by (simp add: rescheduleAppointment_def c1 c2 fa fb Let_def served_def)
qed

text \<open>
  C8. Let \<open>scheduleAppointment\<close> have created the appointment \<open>a\<close>, let \<open>t'\<close> be a
  time that \<open>new Date\<close> accepts, and let Redis serve the two commands of
  \<open>rescheduleAppointment\<close> and the one of \<open>getAppointment\<close>. Then rescheduling to
  \<open>t'\<close> answers \<open>ok: true\<close>, and reading the appointment afterwards returns \<open>a\<close>
  with \<open>normalized_slot_iso\<close> set to the ISO form of \<open>t'\<close> and \<open>updated_at\<close> set to
  the time of the call: \<open>appt_id\<close>, \<open>patient\<close>, \<open>location\<close>, \<open>status\<close> and
  \<open>created_at\<close> are as they were.
\<close>

theorem reschedule_composition:
  assumes "scheduleAppointment p name slot loc w0 = Some (Ok a, w1)"
    and "date_parse p t' = Some d'"
    and "served 3 w1"
  shows "\<exists>a' w2 g. rescheduleAppointment p (appt_id a) t' w1 = (Ok a', w2) \<and>
           fst (getAppointment (appt_id a) w2) = Some g \<and>
           g = a\<lparr>normalized_slot_iso := toISOString p d',
                  updated_at := Some (toISOString p (int (now w1)))\<rparr> \<and>
           a' = g \<and>
           normalized_slot_iso g = toISOString p d' \<and>
           appt_id g = appt_id a \<and> patient g = patient a \<and> location g = location a \<and>
           status g = status a \<and> created_at g = created_at a"
proof -
  let ?g = "a\<lparr>normalized_slot_iso := toISOString p d',
               updated_at := Some (toISOString p (int (now w1)))\<rparr>"
  have sv: "served (Suc (Suc (Suc 0))) w1" using assms(3) by (simp add: numeral_3_eq_3)
  from reschedule_succeeds[OF schedule_stores[OF assms(1)] assms(2) sv]
  obtain w2 where r: "rescheduleAppointment p (appt_id a) t' w1 = (Ok ?g, w2)"
    and st: "appts w2 = (appts w1)(appt_id a \<mapsto> ?g)"
    and s1: "served (Suc 0) w2" by blast
  define wc where "wc = snd (redis_call w2)"
  have c: "redis_call w2 = (None, wc)"
    using served_step(1)[OF s1] by (simp add: wc_def)
  have "appts wc = appts w2" by (simp add: wc_def redis_call_frame)
  then have "fst (getAppointment (appt_id a) w2) = Some ?g"
    by (simp add: getAppointment_def c st)
  with r show ?thesis by simp
qed

text \<open>
  The other two outcomes of \<open>rescheduleAppointment\<close> on a stored appointment when
  Redis serves the read: a time that \<open>new Date\<close> does not accept is refused and nothing
  is written.
\<close>

lemma reschedule_invalid_time:
  assumes "appts w1 apptId = Some a" and "date_parse p t' = None" and "served (Suc n) w1"
  shows "fst (rescheduleAppointment p apptId t' w1) = Failed ''Invalid date/time format'' \<and>
         appts (snd (rescheduleAppointment p apptId t' w1)) = appts w1"
proof -
  define wa where "wa = snd (redis_call w1)"
  have c1: "redis_call w1 = (None, wa)"
    using served_step(1)[OF assms(3)] by (simp add: wa_def)
  have fa: "appts wa = appts w1" by (simp add: wa_def redis_call_frame)
  show ?thesis
    using assms(1,2) by (simp add: rescheduleAppointment_def c1 fa)
qed

section \<open>Plan steps\<close>

lemma plain_reply_steps [simp]: "plan_steps (plain_reply r steps) = steps"
  by (simp add: plain_reply_def)

lemma compose_dual_steps [simp]: "plan_steps (compose_dual p k b steps) = steps"
  by (simp add: compose_dual_def Let_def)

lemma error_reply_error [simp]: "error_message (error_reply e steps) = Some e"
  by (simp add: error_reply_def)

lemma handleSchedule_steps:
  "handleSchedule p sid m ps w = Some (Returns r, steps, w') \<Longrightarrow> \<exists>ext. plan_steps r = ps @ ext"
  by (auto simp: handleSchedule_def Let_def
      split: if_splits option.splits prod.splits tool_result.splits outcome.splits)

lemma handleReschedule_steps:
  "handleReschedule p sid m c ps w = (Returns r, steps, w') \<Longrightarrow> \<exists>ext. plan_steps r = ps @ ext"
  by (auto simp: handleReschedule_def Let_def
      split: if_splits option.splits prod.splits tool_result.splits outcome.splits)

lemma handleKnowledge_steps:
  "handleKnowledge env m ps w = (Returns r, steps, w') \<Longrightarrow> \<exists>ext. plan_steps r = ps @ ext"
  by (auto simp: handleKnowledge_def Let_def)

lemma handleDualIntent_steps:
  "handleDualIntent p env il sid m ps w = Some (Returns r, steps, w') \<Longrightarrow>
     \<exists>ext. plan_steps r = ps @ ext"
  by (auto simp: handleDualIntent_def Let_def
      split: if_splits option.splits prod.splits tool_result.splits outcome.splits)

text \<open>
  C9. A turn of \<open>orchestrate\<close> that returns without the \<open>catch\<close> having set
  \<open>error\<close> returns plan steps whose first element is the \<open>intent_detection\<close>
  step of the turn: every subflow only appends to the list it is given.
\<close>

theorem plan_steps_start_with_intent_detection:
  assumes "orchestrate p cls env il sessionId message w = Some (r, w')"
    and "error_message r = None"
  shows "\<exists>rest. plan_steps r =
           \<lparr>step = ''intent_detection'', detail = Detected (predict cls message)\<rparr> # rest"
proof -
  let ?s0 = "[\<lparr>step = ''intent_detection'', detail = Detected (predict cls message)\<rparr>]"
  obtain o1 w1 where g: "getLastAppt sessionId w = (o1, w1)" by (cases "getLastAppt sessionId w")
  show ?thesis
  proof (cases o1)
    case (Throws e)
    with assms g show ?thesis by (auto simp: orchestrate_def Let_def)
  next
    case (Returns ctx)
    have "\<exists>ext. plan_steps r = ?s0 @ ext"
    proof (cases "route_of (predict cls message) message ctx")
      case DualIntent
      with assms g Returns show ?thesis
        by (auto simp: orchestrate_def Let_def split: option.splits prod.splits outcome.splits
            dest: handleDualIntent_steps)
    next
      case (Reschedule c)
      with assms g Returns show ?thesis
        by (auto simp: orchestrate_def Let_def split: option.splits prod.splits outcome.splits
            dest: handleReschedule_steps)
    next
      case Schedule
      with assms g Returns show ?thesis
        by (auto simp: orchestrate_def Let_def split: option.splits prod.splits outcome.splits
            dest: handleSchedule_steps)
    next
      case Knowledge
      with assms g Returns show ?thesis
        by (auto simp: orchestrate_def Let_def split: option.splits prod.splits outcome.splits
            dest: handleKnowledge_steps)
    next
      case Clarification
      with assms g Returns show ?thesis
        by (auto simp: orchestrate_def Let_def split: option.splits prod.splits outcome.splits)
    qed
    then show ?thesis by auto
  qed
qed

section \<open>The sample turns\<close>

lemma show_now: "show_nat 1793700000000 = ''1793700000000''"
  by (simp add: show_nat.simps)

lemma show_1001: "show_nat 1001 = ''1001''"
  by (simp add: show_nat.simps)

lemma sample_generateApptId:
  "generateApptId sample_world =
     Some (Returns ''A-000000-1001'', sample_world\<lparr>lastApptNumber := 1001\<rparr>)"
  by (subst generateApptId.simps)
    (simp add: Let_def redis_call_def sample_world_def show_now show_1001)

lemma sample_schedule:
  "scheduleAppointment sample_platform ''Chen'' ''2026-11-04T10:30:00.000Z'' ''Midtown'' sample_world =
     Some (Ok sample_appointment, sample_world1)"
  unfolding scheduleAppointment_def sample_generateApptId
  by (simp add: Let_def redis_call_def sample_world_def sample_world1_def sample_platform_def
      sample_appointment_def)

lemma sample_reschedule:
  "rescheduleAppointment sample_platform ''A-000000-1001'' ''2026-11-04T11:00:00.000Z'' sample_world1 =
     (Ok sample_rescheduled, sample_world2)"
  by (simp add: rescheduleAppointment_def Let_def redis_call_def sample_world_def
      sample_world1_def sample_world2_def sample_platform_def sample_appointment_def
      sample_rescheduled_def)

theorem reschedule_composition_witness:
  "scheduleAppointment sample_platform ''Chen'' ''2026-11-04T10:30:00.000Z'' ''Midtown'' sample_world =
     Some (Ok sample_appointment, sample_world1) \<and>
   date_parse sample_platform ''2026-11-04T11:00:00.000Z'' = Some 1793790000000 \<and>
   served 3 sample_world1 \<and>
   rescheduleAppointment sample_platform ''A-000000-1001'' ''2026-11-04T11:00:00.000Z'' sample_world1 =
     (Ok sample_rescheduled, sample_world2) \<and>
   fst (getAppointment ''A-000000-1001'' sample_world2) = Some sample_rescheduled \<and>
   normalized_slot_iso sample_rescheduled = ''2026-11-04T11:00:00.000Z''"
proof -
  have id: "appt_id sample_appointment = ''A-000000-1001''" by (simp add: sample_appointment_def)
  have d: "date_parse sample_platform ''2026-11-04T11:00:00.000Z'' = Some 1793790000000"
    by (simp add: sample_platform_def)
  have sv: "served 3 sample_world1"
    by (simp add: served_def sample_world1_def sample_world_def)
  have n: "now sample_world1 = 1793700000000" by (simp add: sample_world1_def sample_world_def)
  have u: "sample_appointment\<lparr>normalized_slot_iso := toISOString sample_platform 1793790000000,
             updated_at := Some (toISOString sample_platform (int (now sample_world1)))\<rparr> =
           sample_rescheduled"
    unfolding n by (simp add: sample_platform_def sample_rescheduled_def)
  from reschedule_composition [OF sample_schedule d sv]
  have "fst (getAppointment ''A-000000-1001'' sample_world2) = Some sample_rescheduled"
    unfolding id u sample_reschedule by auto
  with sample_schedule sample_reschedule d sv show ?thesis
    by (simp add: sample_rescheduled_def)
qed

lemma extractName_book_for:
  "nlp_people p ''Book for tomorrow'' = [] \<Longrightarrow> extractName p ''Book for tomorrow'' = Some ''for''"
  by (simp add: extractName_def name_patterns_def match_keyword_name_def word_boundary_def
      isWordChar_def isLetter_def ci_prefix_def asciiLower_def isSpace_def Let_def)

text \<open>Whatever the tagger finds, the name of "Book for tomorrow" is not \<open>null\<close>.\<close>

lemma extractName_book_for_not_null: "extractName p ''Book for tomorrow'' \<noteq> None"
proof (cases "nlp_people p ''Book for tomorrow'' = []")
  case True
  then show ?thesis by (simp add: extractName_book_for)
next
  case False
  then show ?thesis by (simp add: extractName_def Let_def)
qed

lemma sample_name: "extractName sample_platform ''Book for tomorrow'' = Some ''for''"
  by (rule extractName_book_for) (simp add: sample_platform_def)

lemma sample_time:
  "extractTime sample_platform ''Book for tomorrow'' = Some ''2026-11-04T12:00:00.000Z''"
  by (simp add: extractTime_def sample_platform_def)

lemma sample_location: "extractLocation ''Book for tomorrow'' = ''Midtown''"
  by (simp add: extractLocation_def toLowerCase_def toLowerCaseChar_def)

lemma sample_intent:
  "predict sample_classifier m = \<lparr>schedule = True, knowledge = False\<rparr>"
  by (simp add: predict_def sample_classifier_def check_prediction_def label_of_def Let_def)

lemma sample_schedule_for:
  "scheduleAppointment sample_platform ''for'' ''2026-11-04T12:00:00.000Z'' ''Midtown'' sample_world =
     Some (Ok booking_for,
           sample_world\<lparr>appts := (appts sample_world)(''A-000000-1001'' \<mapsto> booking_for),
                         appts_all := {''A-000000-1001''}, lastApptNumber := 1001\<rparr>)"
  unfolding scheduleAppointment_def sample_generateApptId
  by (simp add: Let_def redis_call_def sample_world_def sample_platform_def booking_for_def)

lemma sample_handleSchedule:
  "map_option (\<lambda>(out, steps, w'). (map_outcome reply out, map_outcome (\<lambda>r. map_option (map tc_name) (tool_calls r)) out,
                                     appts w' ''A-000000-1001''))
     (handleSchedule sample_platform ''s6'' ''Book for tomorrow'' ps sample_world) =
   Some (Returns ''Booked for for Nov 4, 12:00 PM at Midtown (A-000000-1001).'',
         Returns (Some [''schedule_appointment'']), Some booking_for)"
  unfolding handleSchedule_def Let_def sample_name sample_time sample_location option.sel
    sample_schedule_for
  by (simp add: falsy_def setLastAppt_def redis_call_def sample_world_def
      booked_reply_def format_slot_def schedule_call_def Let_def booking_for_def
      sample_platform_def)

lemma sample_getLastAppt: "getLastAppt sid sample_world = (Returns None, sample_world)"
  by (simp add: getLastAppt_def redis_call_def sample_world_def)

text \<open>
  C3 fails on the code. With the tagger finding no person, the first pattern of
  \<open>extractName\<close> matches "Book for": under the flag \<open>i\<close> the class \<open>[A-Z]\<close>
  takes the lower-case "f", and the name is "for" (lemma \<open>extractName_book_for\<close>).
  The turn schedules an appointment for the patient "for", reports one tool call and
  does not return the templated prompt.
\<close>

theorem missing_name_books_for:
  "extractName sample_platform ''Book for tomorrow'' = Some ''for'' \<and>
   map_option (\<lambda>(r, w'). (reply r, map_option (map tc_name) (tool_calls r),
                             appts w' ''A-000000-1001''))
     (orchestrate sample_platform sample_classifier sample_env KnowledgeLast ''s6''
        ''Book for tomorrow'' sample_world) =
   Some (''Booked for for Nov 4, 12:00 PM at Midtown (A-000000-1001).'',
         Some [''schedule_appointment''], Some booking_for)"
proof -
  let ?s0 = "[\<lparr>step = ''intent_detection'',
               detail = Detected \<lparr>schedule = True, knowledge = False\<rparr>\<rparr>]"
  obtain out steps w' where h:
    "handleSchedule sample_platform ''s6'' ''Book for tomorrow'' ?s0 sample_world =
       Some (out, steps, w')"
    and o: "map_outcome reply out =
              Returns ''Booked for for Nov 4, 12:00 PM at Midtown (A-000000-1001).''"
    and t: "map_outcome (\<lambda>r. map_option (map tc_name) (tool_calls r)) out =
              Returns (Some [''schedule_appointment''])"
    and a: "appts w' ''A-000000-1001'' = Some booking_for"
    using sample_handleSchedule [of ?s0] by (auto simp: map_option_case split: option.splits)
  obtain r where out: "out = Returns r" using o by (cases out) auto
  have route: "route_of \<lparr>schedule = True, knowledge = False\<rparr> ''Book for tomorrow'' None = Schedule"
    by (simp add: route_of_def)
  have "orchestrate sample_platform sample_classifier sample_env KnowledgeLast ''s6''
          ''Book for tomorrow'' sample_world = Some (r, w')"
    unfolding orchestrate_def Let_def sample_intent sample_getLastAppt
    by (simp add: route h out)
  with o t a out sample_name show ?thesis by simp
qed

lemma hello_intent: "predict NotReady ''hello'' = \<lparr>schedule = False, knowledge = False\<rparr>"
  by (simp add: predict_def keywordFallback_def Let_def toLowerCase_def toLowerCaseChar_def
      scheduleKeywords_def knowledgeKeywords_def)

lemma hello_turn:
  "orchestrate sample_platform NotReady sample_env KnowledgeLast ''s5'' ''hello'' sample_world =
     Some (plain_reply clarification
             [\<lparr>step = ''intent_detection'',
               detail = Detected \<lparr>schedule = False, knowledge = False\<rparr>\<rparr>],
           sample_world)"
  unfolding orchestrate_def Let_def hello_intent sample_getLastAppt
  by (simp add: route_of_def)

theorem plan_steps_start_with_intent_detection_witness:
  "orchestrate sample_platform NotReady sample_env KnowledgeLast ''s5'' ''hello'' sample_world =
     Some (plain_reply clarification
             [\<lparr>step = ''intent_detection'',
               detail = Detected \<lparr>schedule = False, knowledge = False\<rparr>\<rparr>],
           sample_world) \<and>
   error_message (plain_reply clarification
             [\<lparr>step = ''intent_detection'',
               detail = Detected \<lparr>schedule = False, knowledge = False\<rparr>\<rparr>]) = None \<and>
   step (hd (plan_steps (plain_reply clarification
             [\<lparr>step = ''intent_detection'',
               detail = Detected \<lparr>schedule = False, knowledge = False\<rparr>\<rparr>]))) =
     ''intent_detection''"
proof -
  have e: "error_message (plain_reply clarification
             [\<lparr>step = ''intent_detection'',
               detail = Detected \<lparr>schedule = False, knowledge = False\<rparr>\<rparr>]) = None"
    by (simp add: plain_reply_def)
  from plan_steps_start_with_intent_detection [OF hello_turn e]
  have "step (hd (plan_steps (plain_reply clarification
             [\<lparr>step = ''intent_detection'',
               detail = Detected \<lparr>schedule = False, knowledge = False\<rparr>\<rparr>]))) =
     ''intent_detection''"
    by auto
  with hello_turn e show ?thesis by simp
qed

end
